theory Spec2Isabelle
  imports Complex_Main "HOL-Library.Sublist"
begin

section \<open>JavaScript values used by the weather engine\<close>

text \<open>
  JavaScript numbers are modelled as real numbers (no NaN, no infinities).  Where the
  engine turns a number into a count (the length of an array, the bound of a loop) the
  arithmetic is rounded as IEEE 754 double precision rounds it, by \<open>toDouble\<close> below;
  coordinates, intensities and angles are left exact.  A \<open>Float32Array\<close> is a list of
  reals of fixed length.  Strings are ASCII strings.
\<close>

text \<open>
  Rounding to double precision: to the nearest multiple of the unit in the last place,
  ties to the even multiple.  A double has a significand of 53 bits; below
  \<open>2 ^ -1022\<close> the unit stays \<open>2 ^ -1074\<close> (gradual underflow).  Overflow to infinity is
  not modelled.
\<close>

definition binade :: "real \<Rightarrow> int" where
  "binade x = \<lfloor>log 2 \<bar>x\<bar>\<rfloor>"

definition pow2 :: "int \<Rightarrow> real" where
  "pow2 e = (if 0 \<le> e then 2 ^ nat e else 1 / 2 ^ nat (- e))"

definition roundHalfEven :: "real \<Rightarrow> int" where
  "roundHalfEven y =
     (let f = \<lfloor>y\<rfloor>
      in if y - of_int f < 1 / 2 then f
         else if 1 / 2 < y - of_int f then f + 1
         else if even f then f else f + 1)"

definition ulp :: "real \<Rightarrow> real" where
  "ulp x = pow2 (max (binade x) (- 1022) - 52)"

definition toDouble :: "real \<Rightarrow> real" where
  "toDouble x = (if x = 0 then 0 else ulp x * of_int (roundHalfEven (x / ulp x)))"

text \<open>
  \<open>toLowerCase\<close> on ASCII: the letters A to Z (codes 65 to 90) have bit 5 clear, and
  adding 32 sets it; every other character is kept.
\<close>

fun toLowerChar :: "char \<Rightarrow> char" where
  "toLowerChar (Char b0 b1 b2 b3 b4 b5 b6 b7) =
     (let n = (of_char (Char b0 b1 b2 b3 b4 b5 b6 b7) :: nat)
      in if 65 \<le> n \<and> n \<le> 90 then Char b0 b1 b2 b3 b4 True b6 b7
         else Char b0 b1 b2 b3 b4 b5 b6 b7)"

definition toLowerCase :: "string \<Rightarrow> string" where
  "toLowerCase s = map toLowerChar s"

text \<open>\<open>String.prototype.includes\<close>: the pattern occurs at some position.\<close>

fun str_includes :: "string \<Rightarrow> string \<Rightarrow> bool" where
  "str_includes [] p = (p = [])"
| "str_includes (c # cs) p = (prefix p (c # cs) \<or> str_includes cs p)"

text \<open>\<open>THREE.MathUtils.degToRad\<close>.\<close>

definition degToRad :: "real \<Rightarrow> real" where
  "degToRad d = d * (pi / 180)"

record WeatherState =
  conditions :: string
  temperature :: real
  windSpeed :: real
  humidity :: real
  windDirection :: real

section \<open>Scene graph and object store\<close>

type_synonym ref = nat
type_synonym vec3 = "real \<times> real \<times> real"

record cloud =
  cloud_scale :: vec3
  cloud_position :: vec3

datatype FogExp2 = FogExp2 nat real

fun fog_density :: "FogExp2 \<Rightarrow> real" where
  "fog_density (FogExp2 c d) = d"

text \<open>
  The objects the engine reads or mutates through a reference.  Colours are the
  integer values of the hexadecimal literals of the source.
\<close>

datatype obj =
    AmbientLight real
  | DirectionalLight real nat real
  | CloudGroup real "cloud list"
  | RainPoints "real list" nat
  | WindSegments "real list" nat
  | IndicatorGroup ref
  | ArrowMesh real vec3
  | OtherObject

datatype kind = KClouds | KRain | KWind | KFog | KIndicator

fun obj_kind :: "obj option \<Rightarrow> kind option" where
  "obj_kind (Some (CloudGroup x cs)) = Some KClouds"
| "obj_kind (Some (RainPoints ps v)) = Some KRain"
| "obj_kind (Some (WindSegments ps v)) = Some KWind"
| "obj_kind (Some (IndicatorGroup a)) = Some KIndicator"
| "obj_kind _ = None"

text \<open>
  One configuration: the object store with its allocation pointer, the source of
  \<open>Math.random\<close> with the number of draws made so far, the largest length the
  JavaScript engine grants a typed array (it depends on the engine and on the memory
  available), the scene (\<open>children\<close> and \<open>fog\<close>), and the fields of the
  \<open>WeatherEffects\<close> object.
\<close>

record config =
  heap :: "ref \<Rightarrow> obj option"
  next_ref :: ref
  random_src :: "nat \<Rightarrow> real"
  random_pos :: nat
  array_limit :: nat
  scene_children :: "ref list"
  scene_fog :: "FogExp2 option"
  clouds :: "ref option"
  rainParticles :: "ref option"
  windLines :: "ref option"
  fog :: "FogExp2 option"
  weatherState :: "WeatherState option"
  windIndicator :: "ref option"
  windArrow :: "ref option"

datatype error = RangeError

type_synonym outcome = "(error \<times> config) + config"

text \<open>The configuration a call leaves behind, whether it returned or threw.\<close>

fun final :: "outcome \<Rightarrow> config" where
  "final (Inl (e, s)) = s"
| "final (Inr s) = s"

definition alloc :: "obj \<Rightarrow> config \<Rightarrow> ref \<times> config" where
  "alloc ob s = (next_ref s, s\<lparr>heap := (heap s)(next_ref s \<mapsto> ob), next_ref := Suc (next_ref s)\<rparr>)"

text \<open>\<open>Object3D.add\<close> detaches the object from its parent and pushes it;
  \<open>Object3D.remove\<close> splices the first occurrence out.\<close>

definition scene_add :: "ref \<Rightarrow> config \<Rightarrow> config" where
  "scene_add r s = s\<lparr>scene_children := remove1 r (scene_children s) @ [r]\<rparr>"

definition scene_remove :: "ref \<Rightarrow> config \<Rightarrow> config" where
  "scene_remove r s = s\<lparr>scene_children := remove1 r (scene_children s)\<rparr>"

section \<open>WeatherEffects\<close>

text \<open>
  The constructor keeps the scene it is given and starts with every handle and the stored
  weather state null.  Of the objects the engine builds, the model keeps what is read or
  written again; materials, colours and fixed placements are left out.
\<close>

definition WeatherEffects_new :: "config \<Rightarrow> config" where
  "WeatherEffects_new s =
     s\<lparr>clouds := None, rainParticles := None, windLines := None, fog := None,
       weatherState := None, windIndicator := None, windArrow := None\<rparr>"

definition rain_like :: "WeatherState \<Rightarrow> bool" where
  "rain_like w = str_includes (toLowerCase (conditions w)) ''rain''"

definition cloud_like :: "WeatherState \<Rightarrow> bool" where
  "cloud_like w = str_includes (toLowerCase (conditions w)) ''cloud''"

text \<open>
  The indicator group (compass disc, four labels, arrow) and its arrow mesh, which
  \<open>this.windArrow\<close> refers to; the group is allocated first.
\<close>

definition createWindDirectionIndicator :: "config \<Rightarrow> config" where
  "createWindDirectionIndicator s =
     (let g = next_ref s;
          a = Suc g;
          s1 = s\<lparr>heap := (heap s)(g \<mapsto> IndicatorGroup a, a \<mapsto> ArrowMesh 0 (1, 1, 1)),
                 next_ref := Suc a, windArrow := Some a\<rparr>
      in (scene_add g s1)\<lparr>windIndicator := Some g\<rparr>)"

definition updateWindDirection :: "WeatherState \<Rightarrow> config \<Rightarrow> config" where
  "updateWindDirection w s =
     (case windArrow s of
        None \<Rightarrow> s
      | Some a \<Rightarrow>
          (case heap s a of
             Some (ArrowMesh rz sc) \<Rightarrow>
               (let radians = degToRad (windDirection w - 180);
                    scale = 1 + windSpeed w / 10
                in s\<lparr>heap := (heap s)(a \<mapsto> ArrowMesh radians (scale, scale, scale))\<rparr>)
           | _ \<Rightarrow> s))"

definition updateFog :: "WeatherState \<Rightarrow> config \<Rightarrow> config" where
  "updateFog w s =
     (let s1 = (if fog s \<noteq> None then s\<lparr>scene_fog := None\<rparr> else s);
          fogDensity = 0.001 + (humidity w / 100) * 0.002;
          f = FogExp2 8900331 fogDensity
      in s1\<lparr>fog := Some f, scene_fog := Some f\<rparr>)"

fun isAmbientLight :: "obj option \<Rightarrow> bool" where
  "isAmbientLight (Some (AmbientLight i)) = True"
| "isAmbientLight _ = False"

fun isSunLight :: "obj option \<Rightarrow> bool" where
  "isSunLight (Some (DirectionalLight i c y)) = (y > 20)"
| "isSunLight _ = False"

fun setIntensity :: "real \<Rightarrow> obj option \<Rightarrow> obj option" where
  "setIntensity v (Some (AmbientLight i)) = Some (AmbientLight v)"
| "setIntensity v (Some (DirectionalLight i c y)) = Some (DirectionalLight v c y)"
| "setIntensity v ob = ob"

fun setHex :: "nat \<Rightarrow> obj option \<Rightarrow> obj option" where
  "setHex h (Some (DirectionalLight i c y)) = Some (DirectionalLight i h y)"
| "setHex h ob = ob"

definition updateLighting :: "WeatherState \<Rightarrow> config \<Rightarrow> config" where
  "updateLighting w s =
     (case find (\<lambda>r. isAmbientLight (heap s r)) (scene_children s) of
        None \<Rightarrow> s
      | Some ambientLight \<Rightarrow>
          (case find (\<lambda>r. isSunLight (heap s r)) (scene_children s) of
             None \<Rightarrow> s
           | Some directionalLight \<Rightarrow>
               (if rain_like w \<or> cloud_like w then
                  (let h1 = (heap s)(ambientLight := setIntensity 0.4 (heap s ambientLight));
                       h2 = h1(directionalLight := setIntensity 0.5 (h1 directionalLight));
                       h3 = h2(directionalLight := setHex 13421823 (h2 directionalLight))
                   in s\<lparr>heap := h3\<rparr>)
                else
                  (let h1 = (heap s)(ambientLight := setIntensity 0.6 (heap s ambientLight));
                       h2 = h1(directionalLight := setIntensity 0.8 (h1 directionalLight));
                       h3 = h2(directionalLight := setHex 16774374 (h2 directionalLight))
                   in s\<lparr>heap := h3\<rparr>))))"

text \<open>One cloud of \<open>updateClouds\<close>: seven draws, in the order of the source.\<close>

definition makeCloud :: "(nat \<Rightarrow> real) \<Rightarrow> nat \<Rightarrow> cloud" where
  "makeCloud rnd k =
     (let size = 2 + rnd k * 3;
          px = rnd (k + 1) * 100 - 50;
          py = 10 + rnd (k + 2) * 10;
          pz = rnd (k + 3) * 100 - 50;
          sx = size + rnd (k + 4) * 2;
          sy = size * 0.5 + rnd (k + 5) * 1;
          sz = size * 0.5 + rnd (k + 6) * 2
      in \<lparr>cloud_scale = (sx, sy, sz), cloud_position = (px, py, pz)\<rparr>)"

function cloudLoop :: "(nat \<Rightarrow> real) \<Rightarrow> nat \<Rightarrow> real \<Rightarrow> cloud list \<Rightarrow> nat \<Rightarrow> cloud list \<times> nat" where
  "cloudLoop rnd i cloudCount acc k =
     (if real i < cloudCount
      then cloudLoop rnd (i + 1) cloudCount (acc @ [makeCloud rnd k]) (k + 7)
      else (acc, k))"
  by pat_completeness auto
termination
proof (relation "measure (\<lambda>(rnd, i, cloudCount, acc, k). nat \<lceil>cloudCount\<rceil> - i)")
  show "wf (measure (\<lambda>(rnd, i, cloudCount, acc, k). nat \<lceil>cloudCount\<rceil> - i))"
    by simp
next
  fix rnd :: "nat \<Rightarrow> real" and i :: nat and cloudCount :: real and acc :: "cloud list" and k :: nat
  assume "real i < cloudCount"
  then have "int i < \<lceil>cloudCount\<rceil>"
    by linarith
  then show "((rnd, i + 1, cloudCount, acc @ [makeCloud rnd k], k + 7), (rnd, i, cloudCount, acc, k))
      \<in> measure (\<lambda>(rnd, i, cloudCount, acc, k). nat \<lceil>cloudCount\<rceil> - i)"
    by simp
qed

declare cloudLoop.simps [simp del]

definition cloudCountOf :: "WeatherState \<Rightarrow> real" where
  "cloudCountOf w =
     (if rain_like w then toDouble (15 + toDouble (windSpeed w * 2))
      else if cloud_like w then toDouble (10 + windSpeed w)
      else 5)"

definition updateClouds :: "WeatherState \<Rightarrow> config \<Rightarrow> config" where
  "updateClouds w s =
     (let s1 = (case clouds s of Some c \<Rightarrow> scene_remove c s | None \<Rightarrow> s);
          (cs, k) = cloudLoop (random_src s1) 0 (cloudCountOf w) [] (random_pos s1);
          (cloudGroup, s2) = alloc (CloudGroup 0 cs) (s1\<lparr>random_pos := k\<rparr>)
      in (scene_add cloudGroup s2)\<lparr>clouds := Some cloudGroup\<rparr>)"

function rainFill :: "(nat \<Rightarrow> real) \<Rightarrow> nat \<Rightarrow> nat \<Rightarrow> real list \<Rightarrow> nat \<Rightarrow> real list \<times> nat" where
  "rainFill rnd i particleCount positions k =
     (if i < particleCount
      then rainFill rnd (i + 1) particleCount
             (positions[i * 3 := rnd k * 100 - 50,
                        i * 3 + 1 := rnd (k + 1) * 50,
                        i * 3 + 2 := rnd (k + 2) * 100 - 50]) (k + 3)
      else (positions, k))"
  by pat_completeness auto
termination
  by (relation "measure (\<lambda>(rnd, i, particleCount, positions, k). particleCount - i)") auto

declare rainFill.simps [simp del]

text \<open>
  \<open>new Float32Array(n)\<close> throws a RangeError for a negative length, for a length above
  \<open>2 ^ 53 - 1\<close>, and for a length the engine cannot allocate.
\<close>

definition maxLength :: "config \<Rightarrow> int" where
  "maxLength s = min (int (array_limit s)) (2 ^ 53 - 1)"

text \<open>\<open>Math.floor(5000 * (humidity / 100))\<close>, each operation rounded to a double.\<close>

definition particleCountOf :: "WeatherState \<Rightarrow> int" where
  "particleCountOf w = \<lfloor>toDouble (5000 * toDouble (humidity w / 100))\<rfloor>"

definition updateRain :: "WeatherState \<Rightarrow> config \<Rightarrow> outcome" where
  "updateRain w s =
     (let s1 = (case rainParticles s of
                  Some r \<Rightarrow> (scene_remove r s)\<lparr>rainParticles := None\<rparr>
                | None \<Rightarrow> s)
      in if \<not> rain_like w then Inr s1
         else
           (let particleCount = particleCountOf w
            in if particleCount * 3 < 0 \<or> maxLength s1 < particleCount * 3
               then Inl (RangeError, s1)
               else
                 (let (positions, k) =
                        rainFill (random_src s1) 0 (nat particleCount)
                          (replicate (nat (particleCount * 3)) 0) (random_pos s1);
                      (rain, s2) = alloc (RainPoints positions 0) (s1\<lparr>random_pos := k\<rparr>)
                  in Inr ((scene_add rain s2)\<lparr>rainParticles := Some rain\<rparr>))))"

definition makeLine :: "(nat \<Rightarrow> real) \<Rightarrow> real \<Rightarrow> real \<Rightarrow> nat \<Rightarrow> real list" where
  "makeLine rnd speed x0 k =
     (let y = 0.5 + rnd k * 2;
          z = rnd (k + 1) * 100 - 50
      in [x0, y, z,
          x0 - speed * (0.5 + rnd (k + 2)),
          y - speed * 0.2 * rnd (k + 3),
          z + speed * (0.5 - rnd (k + 4))])"

fun writeAt :: "nat \<Rightarrow> real list \<Rightarrow> real list \<Rightarrow> real list" where
  "writeAt i [] positions = positions"
| "writeAt i (v # vs) positions = writeAt (i + 1) vs (positions[i := v])"

function windFill :: "(nat \<Rightarrow> real) \<Rightarrow> real \<Rightarrow> nat \<Rightarrow> nat \<Rightarrow> real list \<Rightarrow> nat \<Rightarrow> real list \<times> nat" where
  "windFill rnd speed i lineCount positions k =
     (if i < lineCount
      then windFill rnd speed (i + 1) lineCount
             (writeAt (i * 6) (makeLine rnd speed (rnd k * 100 - 50) (k + 1)) positions) (k + 6)
      else (positions, k))"
  by pat_completeness auto
termination
  by (relation "measure (\<lambda>(rnd, speed, i, lineCount, positions, k). lineCount - i)") auto

declare windFill.simps [simp del]

definition updateWind :: "WeatherState \<Rightarrow> config \<Rightarrow> config" where
  "updateWind w s =
     (let s1 = (case windLines s of
                  Some l \<Rightarrow> (scene_remove l s)\<lparr>windLines := None\<rparr>
                | None \<Rightarrow> s)
      in if windSpeed w \<le> 3 then s1
         else
           (let lineCount = 50;
                (positions, k) =
                  windFill (random_src s1) (windSpeed w) 0 lineCount
                    (replicate (lineCount * 6) 0) (random_pos s1);
                (lines, s2) = alloc (WindSegments positions 0) (s1\<lparr>random_pos := k\<rparr>)
            in (scene_add lines s2)\<lparr>windLines := Some lines\<rparr>))"

text \<open>The last statement of \<open>updateEffects\<close>: the wind-direction indicator.\<close>

definition updateIndicator :: "WeatherState \<Rightarrow> config \<Rightarrow> config" where
  "updateIndicator w s =
     (if windSpeed w > 0 then
        updateWindDirection w
          (if windIndicator s = None then createWindDirectionIndicator s else s)
      else
        (case windIndicator s of
           Some g \<Rightarrow> (scene_remove g s)\<lparr>windIndicator := None, windArrow := None\<rparr>
         | None \<Rightarrow> s))"

definition updateEffects :: "config \<Rightarrow> outcome" where
  "updateEffects s =
     (case weatherState s of
        None \<Rightarrow> Inr s
      | Some w \<Rightarrow>
          (case updateRain w (updateClouds w (updateLighting w (updateFog w s))) of
             Inl e \<Rightarrow> Inl e
           | Inr s3 \<Rightarrow> Inr (updateIndicator w (updateWind w s3))))"

definition updateWeather :: "WeatherState \<Rightarrow> config \<Rightarrow> outcome" where
  "updateWeather weather s = updateEffects (s\<lparr>weatherState := Some weather\<rparr>)"

text \<open>
  The per-frame step.  A read beyond the end of a typed array yields \<open>undefined\<close>, so the
  comparison that follows is false; a write beyond the end is ignored, as \<open>list_update\<close> is.
\<close>

function rainStep :: "(nat \<Rightarrow> real) \<Rightarrow> real \<Rightarrow> nat \<Rightarrow> real list \<Rightarrow> nat \<Rightarrow> real list \<times> nat" where
  "rainStep rnd delta i positions k =
     (if i < length positions then
        (if i + 1 < length positions then
           (let p1 = positions[i + 1 := positions ! (i + 1) - 10 * delta]
            in if p1 ! (i + 1) < 0
               then rainStep rnd delta (i + 3)
                      (p1[i + 1 := 20 + rnd k * 30,
                          i := rnd (k + 1) * 100 - 50,
                          i + 2 := rnd (k + 2) * 100 - 50]) (k + 3)
               else rainStep rnd delta (i + 3) p1 k)
         else rainStep rnd delta (i + 3) positions k)
      else (positions, k))"
  by pat_completeness auto
termination
  by (relation "measure (\<lambda>(rnd, delta, i, positions, k). length positions - i)") auto

declare rainStep.simps [simp del]

function windStep :: "(nat \<Rightarrow> real) \<Rightarrow> real \<Rightarrow> real \<Rightarrow> nat \<Rightarrow> real list \<Rightarrow> nat \<Rightarrow> real list \<times> nat" where
  "windStep rnd speed delta i positions k =
     (if i < length positions then
        (let p1 = positions[i := positions ! i - speed * delta * 0.2];
             p2 = (if i + 3 < length p1 then p1[i + 3 := p1 ! (i + 3) - speed * delta * 0.2] else p1)
         in if p2 ! i < - 60
            then windStep rnd speed delta (i + 6)
                   (writeAt i (makeLine rnd speed 60 k) p2) (k + 5)
            else windStep rnd speed delta (i + 6) p2 k)
      else (positions, k))"
  by pat_completeness auto
termination
proof -
  have len: "length (writeAt j vs ps) = length ps" for j vs and ps :: "real list"
    by (induction vs arbitrary: j ps) auto
  show ?thesis
    by (relation "measure (\<lambda>(rnd, speed, delta, i, positions, k). length positions - i)")
       (auto simp: len)
qed

declare windStep.simps [simp del]

definition animateClouds :: "real \<Rightarrow> WeatherState \<Rightarrow> config \<Rightarrow> config" where
  "animateClouds delta w s =
     (case clouds s of
        None \<Rightarrow> s
      | Some c \<Rightarrow>
          (case heap s c of
             Some (CloudGroup x cs) \<Rightarrow>
               (let x1 = x + windSpeed w * delta * 0.05;
                    x2 = (if x1 > 60 then - 60 else x1)
                in s\<lparr>heap := (heap s)(c \<mapsto> CloudGroup x2 cs)\<rparr>)
           | _ \<Rightarrow> s))"

definition animateRain :: "real \<Rightarrow> config \<Rightarrow> config" where
  "animateRain delta s =
     (case rainParticles s of
        None \<Rightarrow> s
      | Some r \<Rightarrow>
          (case heap s r of
             Some (RainPoints positions v) \<Rightarrow>
               (let (p, k) = rainStep (random_src s) delta 0 positions (random_pos s)
                in s\<lparr>heap := (heap s)(r \<mapsto> RainPoints p (Suc v)), random_pos := k\<rparr>)
           | _ \<Rightarrow> s))"

definition animateWind :: "real \<Rightarrow> WeatherState \<Rightarrow> config \<Rightarrow> config" where
  "animateWind delta w s =
     (case windLines s of
        None \<Rightarrow> s
      | Some l \<Rightarrow>
          (case heap s l of
             Some (WindSegments positions v) \<Rightarrow>
               (let (p, k) = windStep (random_src s) (windSpeed w) delta 0 positions (random_pos s)
                in s\<lparr>heap := (heap s)(l \<mapsto> WindSegments p (Suc v)), random_pos := k\<rparr>)
           | _ \<Rightarrow> s))"

text \<open>Each of the three blocks of \<open>animate\<close> tests its handle and \<open>this.weatherState\<close>.\<close>

definition animate :: "real \<Rightarrow> config \<Rightarrow> config" where
  "animate delta s =
     (let s1 = (case weatherState s of Some w \<Rightarrow> animateClouds delta w s | None \<Rightarrow> s);
          s2 = (case weatherState s1 of Some w \<Rightarrow> animateRain delta s1 | None \<Rightarrow> s1)
      in (case weatherState s2 of Some w \<Rightarrow> animateWind delta w s2 | None \<Rightarrow> s2))"

definition dispose :: "config \<Rightarrow> config" where
  "dispose s =
     (let s1 = (case clouds s of Some c \<Rightarrow> scene_remove c s | None \<Rightarrow> s);
          s2 = (case rainParticles s1 of Some r \<Rightarrow> scene_remove r s1 | None \<Rightarrow> s1);
          s3 = (case windLines s2 of Some l \<Rightarrow> scene_remove l s2 | None \<Rightarrow> s2);
          s4 = (if fog s3 \<noteq> None then s3\<lparr>scene_fog := None\<rparr> else s3)
      in (case windIndicator s4 of Some g \<Rightarrow> scene_remove g s4 | None \<Rightarrow> s4))"

text \<open>A caller that keeps the object after a call, also when the call threw.\<close>

fun updates :: "WeatherState list \<Rightarrow> config \<Rightarrow> config" where
  "updates [] s = s"
| "updates (w # ws) s = updates ws (final (updateWeather w s))"

section \<open>Field: textures\<close>

datatype wrapping = ClampToEdgeWrapping | RepeatWrapping | MirroredRepeatWrapping

datatype colorSpace = NoColorSpace | SRGBColorSpace | LinearSRGBColorSpace

text \<open>A texture object; \<open>tex_id\<close> is its identity (\<open>tex !== grassNormal\<close> compares it).\<close>

record texture =
  tex_id :: nat
  tex_source :: string
  wrapS :: wrapping
  wrapT :: wrapping
  repeat :: "real \<times> real"
  colorSpace :: colorSpace

record TextureMaps =
  soilColor :: texture
  soilNormal :: texture
  soilRoughness :: texture
  soilDisplacement :: texture
  grassColor :: texture
  grassNormal :: texture
  grassRoughness :: texture

text \<open>
  What the asset server and the decoders deliver for a path: a failure message or the
  resource.  Every \<open>loadAsync\<close> creates a new object; its identity is the position of
  the request in the manifest.
\<close>

type_synonym 'a loaded = "string + 'a"

definition texture_manifest :: "string list" where
  "texture_manifest =
     [''/textures/soil/Ground0825_2K-JPG_Color.jpg'',
      ''/textures/soil/Ground0825_2K-JPG_NormalGL.jpg'',
      ''/textures/soil/Ground0825_2K-JPG_Roughness.jpg'',
      ''/textures/soil/Ground0825_2K-JPG_Displacement.jpg'',
      ''/textures/grass/grass_path_3_diff_4k.jpg'',
      ''/textures/grass/grass_path_3_nor_gl_4k.exr'',
      ''/textures/grass/grass_path_3_rough_4k.jpg'']"

definition loadAsync :: "(string \<Rightarrow> texture loaded) \<Rightarrow> nat \<Rightarrow> string \<Rightarrow> texture loaded" where
  "loadAsync server i path =
     (case server path of Inl e \<Rightarrow> Inl e | Inr t \<Rightarrow> Inr (t\<lparr>tex_id := i\<rparr>))"

text \<open>\<open>Promise.all\<close>: rejects with a rejection of one of its inputs, else all the values.\<close>

fun promise_all :: "'a loaded list \<Rightarrow> ('a list) loaded" where
  "promise_all [] = Inr []"
| "promise_all (Inl e # ps) = Inl e"
| "promise_all (Inr v # ps) = (case promise_all ps of Inl e \<Rightarrow> Inl e | Inr vs \<Rightarrow> Inr (v # vs))"

text \<open>The body of \<open>textures.forEach\<close> in \<open>loadTextures\<close>.\<close>

definition configureTexture :: "texture \<Rightarrow> texture \<Rightarrow> texture" where
  "configureTexture grassNormal0 tex =
     (let t1 = tex\<lparr>wrapS := RepeatWrapping, wrapT := RepeatWrapping\<rparr>;
          t2 = t1\<lparr>repeat := (4, 4)\<rparr>
      in if tex_id tex \<noteq> tex_id grassNormal0 then t2\<lparr>colorSpace := SRGBColorSpace\<rparr> else t2)"

definition loadTextures :: "(string \<Rightarrow> texture loaded) \<Rightarrow> TextureMaps loaded" where
  "loadTextures server =
     (case promise_all (map (\<lambda>(i, path). loadAsync server i path)
                         (enumerate 0 texture_manifest)) of
        Inl e \<Rightarrow> Inl e
      | Inr [sc, sn, sr, sd, gc, gn, gr] \<Rightarrow>
          Inr \<lparr>soilColor = configureTexture gn sc,
               soilNormal = configureTexture gn sn,
               soilRoughness = configureTexture gn sr,
               soilDisplacement = configureTexture gn sd,
               grassColor = configureTexture gn gc,
               grassNormal = configureTexture gn gn,
               grassRoughness = configureTexture gn gr\<rparr>
      | Inr other \<Rightarrow> Inl ''unreachable'')"

definition allTextures :: "TextureMaps \<Rightarrow> texture list" where
  "allTextures m =
     [soilColor m, soilNormal m, soilRoughness m, soilDisplacement m,
      grassColor m, grassNormal m, grassRoughness m]"

section \<open>Field: terrain\<close>

text \<open>The \<open>rowYPositions.forEach\<close> of \<open>createTerrain\<close>, on the height of one vertex.\<close>

definition rowBump :: "real \<Rightarrow> real \<Rightarrow> real \<Rightarrow> real" where
  "rowBump y z rowY =
     (let rowWidth = 3
      in if \<bar>y - rowY\<bar> < rowWidth
         then (let distance = (y - rowY) / rowWidth;
                   bump = 0.3 * exp (- (distance ^ 4))
               in z + bump)
         else z)"

definition noiseValue :: "real \<Rightarrow> real \<Rightarrow> real" where
  "noiseValue x y =
     0.05 * (sin (x * 0.1) * cos (y * 0.1) + 0.03 * sin (x * 0.3) * cos (y * 0.3))"

text \<open>
  One iteration of the loop over the position array.  When the array has no entry
  \<open>i + 2\<close> the writes fall beyond its end and are ignored.
\<close>

definition displaceVertex :: "nat \<Rightarrow> real list \<Rightarrow> real list" where
  "displaceVertex i positions =
     (if i + 2 < length positions then
        (let x = positions ! i;
             y = positions ! (i + 1);
             p1 = positions[i + 2 := fold (\<lambda>rowY z. rowBump y z rowY) [- 10, 0, 10] (positions ! (i + 2))]
         in p1[i + 2 := p1 ! (i + 2) + noiseValue x y])
      else positions)"

function terrainLoop :: "nat \<Rightarrow> real list \<Rightarrow> real list" where
  "terrainLoop i positions =
     (if i < length positions then terrainLoop (i + 3) (displaceVertex i positions)
      else positions)"
  by pat_completeness auto
termination
  by (relation "measure (\<lambda>(i, positions). length positions - i)")
     (auto simp: displaceVertex_def Let_def)

declare terrainLoop.simps [simp del]

record ground =
  geom_position :: "real list"
  geom_normal :: "real list"
  ground_map :: texture
  ground_normalMap :: texture
  ground_roughnessMap :: texture
  ground_displacementMap :: texture
  rotation_x :: real
  receiveShadow :: bool

text \<open>
  \<open>createTerrain\<close>; the vertex array of \<open>new THREE.PlaneGeometry(100, 100, 100, 100)\<close>
  and the library routine \<open>computeVertexNormals\<close> are parameters.
\<close>

definition createTerrain :: "real list \<Rightarrow> (real list \<Rightarrow> real list) \<Rightarrow> TextureMaps \<Rightarrow> ground" where
  "createTerrain planeGeometry computeVertexNormals textures =
     (let positions1 = terrainLoop 0 planeGeometry
      in \<lparr>geom_position = positions1,
          geom_normal = computeVertexNormals positions1,
          ground_map = soilColor textures,
          ground_normalMap = soilNormal textures,
          ground_roughnessMap = soilRoughness textures,
          ground_displacementMap = soilDisplacement textures,
          rotation_x = - pi / 2,
          receiveShadow = True\<rparr>)"

section \<open>Field: vegetation, plants and scene construction\<close>

record grass =
  grass_position :: vec3
  grass_rotation_z :: real
  grass_scale :: real

definition makeGrass :: "(nat \<Rightarrow> real) \<Rightarrow> nat \<Rightarrow> grass" where
  "makeGrass rnd k =
     (let angle = rnd k * pi * 2;
          radius = sqrt (rnd (k + 1)) * 45
      in \<lparr>grass_position = (radius * cos angle, 0, radius * sin angle),
          grass_rotation_z = rnd (k + 2) * pi,
          grass_scale = 0.8 + rnd (k + 3) * 1.2\<rparr>)"

record gltf_mesh =
  castShadow :: bool
  mesh_receiveShadow :: bool
  isStandardMaterial :: bool
  roughness :: real
  metalness :: real

record gltf =
  gltf_scale :: vec3
  gltf_meshes :: "gltf_mesh list"
  gltf_animations :: "string list"

record PlantModel =
  plant_gltf :: gltf
  density :: real
  scale :: real
  animations :: "string list"
  name :: string

datatype sobj =
    SAmbientLight nat real
  | SDirectionalLight nat real vec3
  | Ground ground
  | GrassGroup "grass list"
  | FieldGroup "vec3 list"

text \<open>
  The part of the component state that scene construction touches: the two pieces of
  React state behind the loading overlay, the scene, the animation mixers (each with the
  clips it plays) and the number of draws from \<open>Math.random\<close>.
\<close>

record field =
  loading :: bool
  loadingMessage :: string
  scene :: "sobj list"
  mixers :: "string list list"
  draws :: nat

definition mount_state :: field where
  "mount_state = \<lparr>loading = True, loadingMessage = ''Loading assets...'', scene = [],
                   mixers = [], draws = 0\<rparr>"

definition setupLighting :: "field \<Rightarrow> field" where
  "setupLighting f =
     f\<lparr>scene := scene f @
        [SAmbientLight 16777215 0.6,
         SDirectionalLight 16774374 0.8 (20, 30, 10),
         SDirectionalLight 13431039 0.3 (- 10, 20, - 5)]\<rparr>"

definition createGrass :: "(nat \<Rightarrow> real) \<Rightarrow> field \<Rightarrow> field" where
  "createGrass rnd f =
     f\<lparr>loadingMessage := ''Creating grass...'',
       scene := scene f @ [GrassGroup (map (\<lambda>i. makeGrass rnd (draws f + 4 * i)) [0..<200])],
       draws := draws f + 4 * 200\<rparr>"

text \<open>The \<open>then\<close> and \<open>catch\<close> callbacks of one model request in \<open>loadPlantModels\<close>.\<close>

definition prepareMesh :: "gltf_mesh \<Rightarrow> gltf_mesh" where
  "prepareMesh m =
     (let m1 = m\<lparr>castShadow := True, mesh_receiveShadow := True\<rparr>
      in if isStandardMaterial m1 then m1\<lparr>roughness := 0.8, metalness := 0.2\<rparr> else m1)"

definition loadPlant :: "(string \<Rightarrow> gltf loaded) \<Rightarrow> PlantModel option" where
  "loadPlant server =
     (case server ''/models/plants/tomato_plant.glb'' of
        Inr g \<Rightarrow>
          Some \<lparr>plant_gltf = g\<lparr>gltf_scale := (0.05, 0.05, 0.05),
                                 gltf_meshes := map prepareMesh (gltf_meshes g)\<rparr>,
                density = 0.5, scale = 0.05, animations = gltf_animations g,
                name = ''Tomato''\<rparr>
      | Inl e \<Rightarrow> None)"

definition loadPlantModels :: "(string \<Rightarrow> gltf loaded) \<Rightarrow> field \<Rightarrow> PlantModel list \<times> field" where
  "loadPlantModels server f =
     (List.map_filter id [loadPlant server], f\<lparr>loadingMessage := ''Loading plants...''\<rparr>)"

definition plantPosition :: "(nat \<Rightarrow> real) \<Rightarrow> nat \<Rightarrow> nat \<Rightarrow> nat \<Rightarrow> vec3" where
  "plantPosition rnd k r c =
     (let baseX = - ((5 - 1) * 5) / 2;
          baseZ = - ((3 - 1) * 10) / 2;
          x = baseX + real c * 5 + (rnd k - 0.5) * 0.5;
          z = baseZ + real r * 10 + (rnd (k + 1) - 0.5) * 0.5
      in (x, 0, z))"

definition createPlantField :: "(nat \<Rightarrow> real) \<Rightarrow> PlantModel list \<Rightarrow> field \<Rightarrow> field" where
  "createPlantField rnd plants f =
     (case plants of
        [] \<Rightarrow> f
      | selectedPlant # rest \<Rightarrow>
          f\<lparr>loadingMessage := ''Planting crops...'',
            scene := scene f @
              [FieldGroup (concat (map (\<lambda>r. map (\<lambda>c. plantPosition rnd (draws f + 2 * (r * 5 + c)) r c)
                                                [0..<5]) [0..<3]))],
            mixers := mixers f @ replicate (3 * 5) (animations selectedPlant),
            draws := draws f + 2 * (3 * 5)\<rparr>)"

definition addTerrain :: "real list \<Rightarrow> (real list \<Rightarrow> real list) \<Rightarrow> TextureMaps \<Rightarrow> field \<Rightarrow> field" where
  "addTerrain planeGeometry computeVertexNormals textures f =
     f\<lparr>loadingMessage := ''Creating terrain...'',
       scene := scene f @ [Ground (createTerrain planeGeometry computeVertexNormals textures)]\<rparr>"

text \<open>
  \<open>initializeScene\<close>: the \<open>try\<close> block runs until a rejected \<open>await\<close>; the \<open>catch\<close> block
  sets the failure message.
\<close>

definition initializeScene ::
  "(string \<Rightarrow> texture loaded) \<Rightarrow> (string \<Rightarrow> gltf loaded) \<Rightarrow> (nat \<Rightarrow> real) \<Rightarrow>
   real list \<Rightarrow> (real list \<Rightarrow> real list) \<Rightarrow> field \<Rightarrow> field" where
  "initializeScene texServer modelServer rnd planeGeometry computeVertexNormals f =
     (let f1 = setupLighting f;
          f2 = f1\<lparr>loadingMessage := ''Loading textures...''\<rparr>
      in case loadTextures texServer of
           Inl e \<Rightarrow> f2\<lparr>loadingMessage := ''Failed to load. Please refresh.''\<rparr>
         | Inr textures \<Rightarrow>
             (let f3 = addTerrain planeGeometry computeVertexNormals textures f2;
                  f4 = createGrass rnd f3;
                  (plants, f5) = loadPlantModels modelServer f4;
                  f6 = createPlantField rnd plants f5
              in f6\<lparr>loading := False\<rparr>))"

section \<open>Field: animation loop and teardown\<close>

text \<open>
  The lifecycle of the effect of the component: whether the resize listener is attached,
  whether the canvas is in the document, whether the renderer has been disposed, whether a
  \<open>requestAnimationFrame\<close> callback is pending, the frames rendered, and the meshes of the
  scene whose geometry and material have been disposed.
\<close>

record lifecycle =
  resizeListener :: bool
  canvasMounted :: bool
  rendererDisposed :: bool
  framePending :: bool
  framesRendered :: nat
  meshesDisposed :: nat

definition mounted :: lifecycle where
  "mounted = \<lparr>resizeListener = True, canvasMounted = True, rendererDisposed = False,
               framePending = False, framesRendered = 0, meshesDisposed = 0\<rparr>"

text \<open>\<open>animate\<close> of the component: it requests the next frame, then renders.\<close>

definition field_animate :: "lifecycle \<Rightarrow> lifecycle" where
  "field_animate l = l\<lparr>framePending := True, framesRendered := Suc (framesRendered l)\<rparr>"

text \<open>The browser runs a pending frame callback once.\<close>

definition frame :: "lifecycle \<Rightarrow> lifecycle" where
  "frame l = (if framePending l then field_animate (l\<lparr>framePending := False\<rparr>) else l)"

definition cleanupScene :: "bool \<Rightarrow> lifecycle \<Rightarrow> lifecycle" where
  "cleanupScene mountRefCurrent l =
     (if mountRefCurrent then l\<lparr>canvasMounted := False, rendererDisposed := True\<rparr> else l)"

text \<open>The function the effect returns; \<open>n\<close> is the number of meshes \<open>scene.traverse\<close> visits.\<close>

definition cleanup :: "bool \<Rightarrow> nat \<Rightarrow> lifecycle \<Rightarrow> lifecycle" where
  "cleanup mountRefCurrent n l =
     (cleanupScene mountRefCurrent (l\<lparr>resizeListener := False\<rparr>))\<lparr>meshesDisposed := n\<rparr>"

section \<open>The specification's formulas and concrete inputs\<close>

text \<open>
  The ridge of the specification: a vertex at signed distance \<open>delta\<close> from a target row is
  raised by \<open>amplitude * exp (- (delta / w) ^ 4)\<close> when it lies within the bandwidth \<open>w\<close>.
\<close>

definition spec_row_bump :: "real \<Rightarrow> real \<Rightarrow> real \<Rightarrow> real" where
  "spec_row_bump amplitude w delta =
     (if \<bar>delta\<bar> < w then amplitude * exp (- ((delta / w) ^ 4)) else 0)"

text \<open>The height of vertex \<open>v\<close> after the displacement pass, as the specification gives it.\<close>

definition spec_height :: "real list \<Rightarrow> nat \<Rightarrow> real" where
  "spec_height ps v =
     ps ! (3 * v + 2)
     + (\<Sum>rowY\<leftarrow>[- 10, 0, 10]. spec_row_bump 0.3 3 (ps ! (3 * v + 1) - rowY))
     + 0.05 * (sin (ps ! (3 * v) * 0.1) * cos (ps ! (3 * v + 1) * 0.1)
               + 0.03 * sin (ps ! (3 * v) * 0.3) * cos (ps ! (3 * v + 1) * 0.3))"

text \<open>A source of random numbers in the open unit interval.\<close>

definition rnd0 :: "nat \<Rightarrow> real" where
  "rnd0 n = 1 / (real n + 2)"

text \<open>A scene as the component builds it before any effect exists: the three lights.\<close>

definition scene0 :: config where
  "scene0 =
     \<lparr>heap = [0 \<mapsto> AmbientLight 0.6,
              1 \<mapsto> DirectionalLight 0.8 16774374 30,
              2 \<mapsto> DirectionalLight 0.3 13431039 20],
      next_ref = 3, random_src = rnd0, random_pos = 0, array_limit = 4294967295,
      scene_children = [0, 1, 2], scene_fog = Some (FogExp2 8900331 0.002),
      clouds = None, rainParticles = None, windLines = None, fog = None,
      weatherState = None, windIndicator = None, windArrow = None\<rparr>"

definition plain_texture :: texture where
  "plain_texture =
     \<lparr>tex_id = 0, tex_source = [], wrapS = ClampToEdgeWrapping, wrapT = ClampToEdgeWrapping,
      repeat = (1, 1), colorSpace = NoColorSpace\<rparr>"

definition plain_maps :: TextureMaps where
  "plain_maps =
     \<lparr>soilColor = plain_texture, soilNormal = plain_texture, soilRoughness = plain_texture,
      soilDisplacement = plain_texture, grassColor = plain_texture, grassNormal = plain_texture,
      grassRoughness = plain_texture\<rparr>"

text \<open>Asset servers: every texture decodes; the grass normal map fails; no model loads.\<close>

definition good_textures :: "string \<Rightarrow> texture loaded" where
  "good_textures path = Inr (plain_texture\<lparr>tex_source := path\<rparr>)"

definition bad_textures :: "string \<Rightarrow> texture loaded" where
  "bad_textures path =
     (if path = ''/textures/grass/grass_path_3_nor_gl_4k.exr'' then Inl ''decode error''
      else good_textures path)"

definition no_models :: "string \<Rightarrow> gltf loaded" where
  "no_models path = Inl ''404''"

section \<open>Live instances and the consistency of handles\<close>

text \<open>The children of the scene whose object satisfies a predicate, in scene order.\<close>

definition refs_where :: "(obj option \<Rightarrow> bool) \<Rightarrow> config \<Rightarrow> ref list" where
  "refs_where P s = filter (\<lambda>r. P (heap s r)) (scene_children s)"

text \<open>The live instances of an effect kind: the objects of that kind installed in the scene.\<close>

definition instances :: "kind \<Rightarrow> config \<Rightarrow> ref list" where
  "instances K s = refs_where (\<lambda>ob. obj_kind ob = Some K) s"

text \<open>The number of live instances; the fog is the single \<open>scene.fog\<close> slot.\<close>

definition live_count :: "kind \<Rightarrow> config \<Rightarrow> nat" where
  "live_count K s =
     (if K = KFog then (case scene_fog s of None \<Rightarrow> 0 | Some f \<Rightarrow> 1)
      else length (instances K s))"

fun handle_list :: "ref option \<Rightarrow> ref list" where
  "handle_list None = []"
| "handle_list (Some r) = [r]"

fun isArrow :: "obj option \<Rightarrow> bool" where
  "isArrow (Some (ArrowMesh rz sc)) = True"
| "isArrow _ = False"

text \<open>
  The state of an engine whose handles agree with the scene: every child of the scene has
  been allocated, the instances of each kind in the scene are exactly the object of the
  corresponding handle, and the arrow handle is set together with the indicator handle and
  refers to the arrow mesh of the indicator group.
\<close>

definition engine_inv :: "config \<Rightarrow> bool" where
  "engine_inv s \<longleftrightarrow>
     (\<forall>r\<in>set (scene_children s). r < next_ref s)
     \<and> instances KClouds s = handle_list (clouds s)
     \<and> instances KRain s = handle_list (rainParticles s)
     \<and> instances KWind s = handle_list (windLines s)
     \<and> instances KIndicator s = handle_list (windIndicator s)
     \<and> (case windIndicator s of
           None \<Rightarrow> windArrow s = None
         | Some g \<Rightarrow>
             (case windArrow s of
                None \<Rightarrow> False
              | Some a \<Rightarrow> a < next_ref s \<and> heap s g = Some (IndicatorGroup a) \<and> isArrow (heap s a)))"

text \<open>\<open>if (h) scene.remove(h)\<close> on the children of the scene, and the handle of a kind.\<close>

fun rm :: "ref option \<Rightarrow> ref list \<Rightarrow> ref list" where
  "rm None xs = xs"
| "rm (Some r) xs = remove1 r xs"

fun handle :: "kind \<Rightarrow> config \<Rightarrow> ref option" where
  "handle KClouds s = clouds s"
| "handle KRain s = rainParticles s"
| "handle KWind s = windLines s"
| "handle KIndicator s = windIndicator s"
| "handle KFog s = None"

text \<open>The objects the three rebuilding steps install, if any.\<close>

definition new_clouds :: "WeatherState \<Rightarrow> config \<Rightarrow> obj" where
  "new_clouds w s =
     CloudGroup 0 (fst (cloudLoop (random_src s) 0 (cloudCountOf w) [] (random_pos s)))"

definition new_rain :: "WeatherState \<Rightarrow> config \<Rightarrow> obj option" where
  "new_rain w s =
     (if rain_like w \<and> \<not> (particleCountOf w * 3 < 0 \<or> maxLength s < particleCountOf w * 3) then
        Some (RainPoints (fst (rainFill (random_src s) 0 (nat (particleCountOf w))
                (replicate (nat (particleCountOf w * 3)) 0) (random_pos s))) 0)
      else None)"

text \<open>The inputs on which \<open>updateRain\<close> throws.\<close>

definition rain_throws :: "WeatherState \<Rightarrow> config \<Rightarrow> bool" where
  "rain_throws w s \<longleftrightarrow>
     rain_like w \<and> (particleCountOf w * 3 < 0 \<or> maxLength s < particleCountOf w * 3)"

definition new_wind :: "WeatherState \<Rightarrow> config \<Rightarrow> obj option" where
  "new_wind w s =
     (if windSpeed w \<le> 3 then None
      else Some (WindSegments (fst (windFill (random_src s) (windSpeed w) 0 50
                   (replicate (50 * 6) 0) (random_pos s))) 0))"

fun isLight :: "obj option \<Rightarrow> bool" where
  "isLight (Some (AmbientLight i)) = True"
| "isLight (Some (DirectionalLight i c y)) = True"
| "isLight _ = False"

text \<open>The arrow as \<open>updateWindDirection\<close> leaves it, and the poses of the arrows in the scene.\<close>

definition new_arrow :: "WeatherState \<Rightarrow> obj" where
  "new_arrow w =
     ArrowMesh (degToRad (windDirection w - 180))
       (1 + windSpeed w / 10, 1 + windSpeed w / 10, 1 + windSpeed w / 10)"

definition arrow_poses :: "config \<Rightarrow> (real \<times> vec3) option list" where
  "arrow_poses s =
     map (\<lambda>g. case heap s g of
                Some (IndicatorGroup a) \<Rightarrow>
                  (case heap s a of Some (ArrowMesh rz sc) \<Rightarrow> Some (rz, sc) | _ \<Rightarrow> None)
              | _ \<Rightarrow> None)
       (instances KIndicator s)"

text \<open>
  The number of clouds, of rain particles (three coordinates each) and of wind streaks (two
  end points each) of the instances in the scene.
\<close>

fun cloud_count :: "obj option \<Rightarrow> nat" where
  "cloud_count (Some (CloudGroup x cs)) = length cs"
| "cloud_count _ = 0"

fun particle_count :: "obj option \<Rightarrow> nat" where
  "particle_count (Some (RainPoints ps v)) = length ps div 3"
| "particle_count _ = 0"

fun streak_count :: "obj option \<Rightarrow> nat" where
  "streak_count (Some (WindSegments ps v)) = length ps div 6"
| "streak_count _ = 0"

definition cloud_counts :: "config \<Rightarrow> nat list" where
  "cloud_counts s = map (\<lambda>r. cloud_count (heap s r)) (instances KClouds s)"

definition particle_counts :: "config \<Rightarrow> nat list" where
  "particle_counts s = map (\<lambda>r. particle_count (heap s r)) (instances KRain s)"

definition streak_counts :: "config \<Rightarrow> nat list" where
  "streak_counts s = map (\<lambda>r. streak_count (heap s r)) (instances KWind s)"

text \<open>The state in which \<open>updateEffects\<close> calls \<open>updateRain\<close>.\<close>

definition before_rain :: "WeatherState \<Rightarrow> config \<Rightarrow> config" where
  "before_rain w s = updateClouds w (updateLighting w (updateFog w (s\<lparr>weatherState := Some w\<rparr>)))"

text \<open>
  The specification's rain category: the label contains a substring that equals the pattern
  up to the case of its letters.
\<close>

definition contains_ci :: "string \<Rightarrow> string \<Rightarrow> bool" where
  "contains_ci label pat \<longleftrightarrow>
     (\<exists>xs u ys. label = xs @ u @ ys \<and> toLowerCase u = toLowerCase pat)"

text \<open>
  A scene that holds no effect object and whose children have all been allocated: what the
  component hands to the constructor of the engine.
\<close>

definition fresh_scene :: "config \<Rightarrow> bool" where
  "fresh_scene sc \<longleftrightarrow>
     (\<forall>r\<in>set (scene_children sc). r < next_ref sc \<and> obj_kind (heap sc r) = None)"


text \<open>
  Weather states after the scenario of the specification, one with a humidity of 57 per
  cent, and two malformed ones.
\<close>

definition w_rain :: WeatherState where
  "w_rain = \<lparr>conditions = ''RAIN'', temperature = 18, windSpeed = 5, humidity = 80,
              windDirection = 90\<rparr>"

definition w_clear :: WeatherState where
  "w_clear = \<lparr>conditions = ''Clear'', temperature = 25, windSpeed = 0, humidity = 30,
               windDirection = 90\<rparr>"

definition w_breeze :: WeatherState where
  "w_breeze = \<lparr>conditions = ''Clear'', temperature = 25, windSpeed = 2, humidity = 30,
                windDirection = 90\<rparr>"




text \<open>The engine after one update with a light breeze under a clear sky.\<close>

definition engine_breeze :: config where
  "engine_breeze = final (updateWeather w_breeze (WeatherEffects_new scene0))"

text \<open>What is rendered: the objects of the scene in scene order (and \<open>scene_fog\<close>).\<close>

definition scene_objects :: "config \<Rightarrow> obj option list" where
  "scene_objects s = map (heap s) (scene_children s)"

text \<open>The lights of the scene, each with its settings.\<close>

definition lights :: "config \<Rightarrow> (ref \<times> obj option) list" where
  "lights s = map (\<lambda>r. (r, heap s r)) (refs_where isLight s)"

text \<open>
  The settings \<open>updateLighting\<close> leaves on object \<open>r\<close> when the ambient light is \<open>a\<close>
  and the sun light is \<open>d\<close>, and its effect on the lights of the scene.
\<close>

definition relit :: "WeatherState \<Rightarrow> ref \<Rightarrow> ref \<Rightarrow> ref \<Rightarrow> obj option \<Rightarrow> obj option" where
  "relit w a d r ob =
     (let dim = rain_like w \<or> cloud_like w;
          o1 = (if r = a then setIntensity (if dim then 0.4 else 0.6) ob else ob);
          o2 = (if r = d then setIntensity (if dim then 0.5 else 0.8) o1 else o1)
      in if r = d then setHex (if dim then 13421823 else 16774374) o2 else o2)"

definition relight :: "WeatherState \<Rightarrow> (ref \<times> obj option) list \<Rightarrow> (ref \<times> obj option) list" where
  "relight w L =
     (case find (\<lambda>p. isAmbientLight (snd p)) L of
        None \<Rightarrow> L
      | Some pa \<Rightarrow>
          (case find (\<lambda>p. isSunLight (snd p)) L of
             None \<Rightarrow> L
           | Some pd \<Rightarrow> map (\<lambda>p. (fst p, relit w (fst pa) (fst pd) (fst p) (snd p))) L))"

section \<open>Terrain displacement\<close>

lemma rowBump_eq: "rowBump y z rowY = z + spec_row_bump 0.3 3 (y - rowY)"
  by (simp add: rowBump_def spec_row_bump_def Let_def)

lemma fold_rowBump:
  "fold (\<lambda>rowY z. rowBump y z rowY) rows z
     = z + (\<Sum>rowY\<leftarrow>rows. spec_row_bump 0.3 3 (y - rowY))"
  by (induction rows arbitrary: z) (simp_all add: rowBump_eq)

lemma length_displaceVertex: "length (displaceVertex i ps) = length ps"
  by (simp add: displaceVertex_def Let_def)

lemma terrainLoop_step:
  "i < length ps \<Longrightarrow> terrainLoop i ps = terrainLoop (i + 3) (displaceVertex i ps)"
  by (subst terrainLoop.simps) simp

lemma terrainLoop_stop: "\<not> i < length ps \<Longrightarrow> terrainLoop i ps = ps"
  by (subst terrainLoop.simps) simp

lemma length_terrainLoop: "length (terrainLoop i ps) = length ps"
proof (induction i ps rule: terrainLoop.induct)
  case (1 i ps)
  show ?case
  proof (cases "i < length ps")
    case True
    have "length (terrainLoop i ps) = length (terrainLoop (i + 3) (displaceVertex i ps))"
      by (simp only: terrainLoop_step[OF True])
    also have "\<dots> = length (displaceVertex i ps)"
      by (rule 1[OF True])
    also have "\<dots> = length ps"
      by (rule length_displaceVertex)
    finally show ?thesis .
  next
    case False
    then show ?thesis by (simp only: terrainLoop_stop[OF False])
  qed
qed

lemma displaceVertex_other: "j \<noteq> i + 2 \<Longrightarrow> displaceVertex i ps ! j = ps ! j"
  by (simp add: displaceVertex_def Let_def)

lemma displaceVertex_at:
  "3 * v + 2 < length ps \<Longrightarrow> displaceVertex (3 * v) ps ! (3 * v + 2) = spec_height ps v"
  unfolding displaceVertex_def Let_def fold_rowBump spec_height_def noiseValue_def
  by simp

lemma terrainLoop_below: "j < i + 2 \<Longrightarrow> terrainLoop i ps ! j = ps ! j"
proof (induction i ps rule: terrainLoop.induct)
  case (1 i ps)
  show ?case
  proof (cases "i < length ps")
    case True
    have "terrainLoop i ps ! j = terrainLoop (i + 3) (displaceVertex i ps) ! j"
      by (simp only: terrainLoop_step[OF True])
    also have "\<dots> = displaceVertex i ps ! j"
    proof (rule 1(1)[OF True])
      show "j < i + 3 + 2" using 1(2) by simp
    qed
    also have "\<dots> = ps ! j"
    proof (rule displaceVertex_other)
      show "j \<noteq> i + 2" using 1(2) by simp
    qed
    finally show ?thesis .
  next
    case False
    then show ?thesis by (simp only: terrainLoop_stop[OF False])
  qed
qed

lemma terrainLoop_xy:
  "i mod 3 = 0 \<Longrightarrow> j mod 3 \<noteq> 2 \<Longrightarrow> terrainLoop i ps ! j = ps ! j"
proof (induction i ps rule: terrainLoop.induct)
  case (1 i ps)
  show ?case
  proof (cases "i < length ps")
    case True
    from 1(2,3) have ne: "j \<noteq> i + 2" by presburger
    from 1(2) have m: "(i + 3) mod 3 = 0" by presburger
    have "terrainLoop i ps ! j = terrainLoop (i + 3) (displaceVertex i ps) ! j"
      by (simp only: terrainLoop_step[OF True])
    also have "\<dots> = displaceVertex i ps ! j"
      using 1(1)[OF True m 1(3)] .
    also have "\<dots> = ps ! j"
      using ne by (rule displaceVertex_other)
    finally show ?thesis .
  next
    case False
    then show ?thesis by (simp only: terrainLoop_stop[OF False])
  qed
qed

lemma terrainLoop_z:
  "i = 3 * n \<Longrightarrow> n \<le> v \<Longrightarrow> 3 * v + 2 < length ps \<Longrightarrow>
   terrainLoop i ps ! (3 * v + 2) = spec_height ps v"
proof (induction i ps arbitrary: n rule: terrainLoop.induct)
  case (1 i ps)
  have lt: "i < length ps" using 1(2,3,4) by simp
  note step = terrainLoop_step[OF lt]
  show ?case
  proof (cases "n = v")
    case True
    have "3 * v + 2 < i + 3 + 2" using 1(2) True by simp
    then have "terrainLoop i ps ! (3 * v + 2) = displaceVertex i ps ! (3 * v + 2)"
      unfolding step by (rule terrainLoop_below)
    also have "\<dots> = spec_height ps v"
      using displaceVertex_at[of v ps] 1(2,4) True by (simp only:)
    finally show ?thesis .
  next
    case False
    then have nv: "Suc n \<le> v" using 1(3) by simp
    have i3: "i + 3 = 3 * Suc n" using 1(2) by simp
    have len: "3 * v + 2 < length (displaceVertex i ps)"
      using 1(4) by (simp only: length_displaceVertex)
    have ne: "3 * v \<noteq> i + 2" "3 * v + 1 \<noteq> i + 2" "3 * v + 2 \<noteq> i + 2"
      using nv 1(2) by simp_all
    have "terrainLoop i ps ! (3 * v + 2) = spec_height (displaceVertex i ps) v"
      unfolding step using 1(1)[OF lt i3 nv len] .
    also have "\<dots> = spec_height ps v"
      unfolding spec_height_def
      by (simp only: displaceVertex_other[OF ne(1)] displaceVertex_other[OF ne(2)]
            displaceVertex_other[OF ne(3)])
    finally show ?thesis .
  qed
qed

text \<open>
  Claim C7.  \<open>createTerrain\<close> takes no random input: its result is determined by the input
  mesh.  Every vertex \<open>v\<close> of the mesh keeps its planar coordinates and is raised by the
  row bumps \<open>0.3 * exp (- ((y - rowY) / 3) ^ 4)\<close>, summed over the rows \<open>-10, 0, 10\<close> within
  distance 3, plus the two-octave sine noise of its planar coordinates; the positions do not
  depend on the textures or on the normal routine, and the normals are those computed from
  the displaced positions.
\<close>

theorem createTerrain_displacement:
  assumes "3 * v + 2 < length plane"
  shows "length (geom_position (createTerrain plane cvn tex)) = length plane
       \<and> geom_position (createTerrain plane cvn tex) ! (3 * v) = plane ! (3 * v)
       \<and> geom_position (createTerrain plane cvn tex) ! (3 * v + 1) = plane ! (3 * v + 1)
       \<and> geom_position (createTerrain plane cvn tex) ! (3 * v + 2) = spec_height plane v
       \<and> geom_position (createTerrain plane cvn tex) = geom_position (createTerrain plane cvn' tex')
       \<and> geom_normal (createTerrain plane cvn tex) = cvn (geom_position (createTerrain plane cvn tex))"
proof -
  have pos: "geom_position (createTerrain plane c t) = terrainLoop 0 plane" for c t
    by (simp add: createTerrain_def Let_def)
  have x: "terrainLoop 0 plane ! (3 * v) = plane ! (3 * v)"
    by (rule terrainLoop_xy) presburger+
  have y: "terrainLoop 0 plane ! (3 * v + 1) = plane ! (3 * v + 1)"
    by (rule terrainLoop_xy) presburger+
  have z: "terrainLoop 0 plane ! (3 * v + 2) = spec_height plane v"
    by (rule terrainLoop_z[of 0 0]) (use assms in simp_all)
  have n: "geom_normal (createTerrain plane cvn tex) = cvn (terrainLoop 0 plane)"
    by (simp add: createTerrain_def Let_def)
  show ?thesis
    unfolding pos n using x y z by (simp only: length_terrainLoop simp_thms)
qed

theorem createTerrain_displacement_witness:
  "3 * 1 + 2 < length [0, 0, 0, 1, 10, 0 :: real]
   \<and> geom_position (createTerrain [0, 0, 0, 1, 10, 0] id plain_maps) ! (3 * 1 + 2)
       = spec_height [0, 0, 0, 1, 10, 0] 1"
  using createTerrain_displacement [of 1 "[0, 0, 0, 1, 10, 0]" id plain_maps]
  by simp

section \<open>The per-frame step before the first update\<close>

text \<open>
  Claim C10.  While no weather state has been stored (\<open>weatherState\<close> is null), \<open>animate\<close>
  changes nothing, for every \<open>delta\<close>: no buffer, no cloud position, no scene content.
\<close>

theorem animate_without_weather:
  "weatherState s = None \<Longrightarrow> animate delta s = s"
  by (simp add: animate_def)

theorem animate_without_weather_witness:
  "weatherState (WeatherEffects_new scene0) = None
   \<and> animate (1 / 60) (WeatherEffects_new scene0) = WeatherEffects_new scene0"
  using animate_without_weather [of "WeatherEffects_new scene0" "1 / 60"]
  by (simp add: WeatherEffects_new_def)

section \<open>Texture post-processing\<close>

lemma loadTextures_fail:
  assumes "p \<in> set texture_manifest" "server p = Inl e"
  shows "\<exists>e'. loadTextures server = Inl e'"
  using assms
  by (auto simp add: loadTextures_def texture_manifest_def loadAsync_def split: sum.splits)

lemma loadTextures_returns:
  assumes "\<forall>p\<in>set texture_manifest. \<exists>t. server p = Inr t"
  shows "\<exists>m. loadTextures server = Inr m"
proof -
  from assms obtain t0 t1 t2 t3 t4 t5 t6 where t:
    "server (texture_manifest ! 0) = Inr t0" "server (texture_manifest ! 1) = Inr t1"
    "server (texture_manifest ! 2) = Inr t2" "server (texture_manifest ! 3) = Inr t3"
    "server (texture_manifest ! 4) = Inr t4" "server (texture_manifest ! 5) = Inr t5"
    "server (texture_manifest ! 6) = Inr t6"
    unfolding texture_manifest_def by (simp only: list.set ball_simps nth_Cons_0 nth_Cons_numeral numeral_nat nth_Cons_Suc) blast
  show ?thesis
    using t
    by (simp add: loadTextures_def texture_manifest_def loadAsync_def)
qed

text \<open>
  Claim C5, as the specification states it, fails: the soil normal map is tagged sRGB.
\<close>

theorem soilNormal_tagged_sRGB:
  "map_sum id (colorSpace \<circ> soilNormal) (loadTextures good_textures) = Inr SRGBColorSpace"
  by (simp add: loadTextures_def texture_manifest_def loadAsync_def good_textures_def
      configureTexture_def plain_texture_def)

text \<open>
  Claim C5, amended.  When every texture loads, each of the seven textures gets repeating
  wrap mode in both directions and the repeat factor (4, 4); the sRGB colour space is set on
  every texture except the grass normal map (the texture decoded by the EXR loader), which
  keeps the colour space its loader gave it.  The soil normal map is tagged sRGB as well.
\<close>

theorem loadTextures_postprocessing:
  assumes "\<forall>p\<in>set texture_manifest. \<exists>t. server p = Inr t"
  shows "\<exists>m. loadTextures server = Inr m
     \<and> (\<forall>t\<in>set (allTextures m).
           wrapS t = RepeatWrapping \<and> wrapT t = RepeatWrapping \<and> repeat t = (4, 4))
     \<and> colorSpace (soilColor m) = SRGBColorSpace
     \<and> colorSpace (soilNormal m) = SRGBColorSpace
     \<and> colorSpace (soilRoughness m) = SRGBColorSpace
     \<and> colorSpace (soilDisplacement m) = SRGBColorSpace
     \<and> colorSpace (grassColor m) = SRGBColorSpace
     \<and> colorSpace (grassRoughness m) = SRGBColorSpace
     \<and> map_sum id colorSpace (server (texture_manifest ! 5)) = Inr (colorSpace (grassNormal m))"
proof -
  from assms obtain t0 t1 t2 t3 t4 t5 t6 where t:
    "server (texture_manifest ! 0) = Inr t0" "server (texture_manifest ! 1) = Inr t1"
    "server (texture_manifest ! 2) = Inr t2" "server (texture_manifest ! 3) = Inr t3"
    "server (texture_manifest ! 4) = Inr t4" "server (texture_manifest ! 5) = Inr t5"
    "server (texture_manifest ! 6) = Inr t6"
    unfolding texture_manifest_def
    by (simp only: list.set ball_simps nth_Cons_0 nth_Cons_numeral numeral_nat nth_Cons_Suc) blast
  show ?thesis
    using t
    by (simp add: loadTextures_def texture_manifest_def loadAsync_def configureTexture_def
        allTextures_def)
qed

theorem loadTextures_postprocessing_witness:
  "list_all (Not \<circ> isl \<circ> good_textures) texture_manifest
   \<and> (\<exists>m. loadTextures good_textures = Inr m
          \<and> colorSpace (soilNormal m) = SRGBColorSpace
          \<and> colorSpace (grassNormal m) = NoColorSpace
          \<and> wrapS (grassNormal m) = RepeatWrapping)"
proof -
  have g: "\<forall>p\<in>set texture_manifest. \<exists>t. good_textures p = Inr t"
    by (simp add: good_textures_def)
  have n: "map_sum id colorSpace (good_textures (texture_manifest ! 5)) = Inr NoColorSpace"
    by (simp add: good_textures_def plain_texture_def)
  have l: "list_all (Not \<circ> isl \<circ> good_textures) texture_manifest"
    by (simp add: good_textures_def texture_manifest_def)
  show ?thesis
    using l loadTextures_postprocessing [OF g] unfolding n
    by (auto simp: allTextures_def)
qed

section \<open>Asset failures during scene construction\<close>

text \<open>
  Claim C4, as the specification states it, fails for the model: when the textures load and
  the plant model does not, construction completes, the loading flag is cleared and no
  failure message is shown.
\<close>

theorem model_failure_is_swallowed:
  "loading (initializeScene good_textures no_models rnd0 [] id mount_state) = False
   \<and> loadingMessage (initializeScene good_textures no_models rnd0 [] id mount_state)
       = ''Loading plants...''"
  by (simp add: initializeScene_def loadTextures_def texture_manifest_def loadAsync_def
      good_textures_def no_models_def loadPlantModels_def loadPlant_def createPlantField_def
      createGrass_def addTerrain_def setupLighting_def mount_state_def List.map_filter_simps
      Let_def)

text \<open>
  Claim C4, amended.  If any texture fails to load, construction stops after the lights:
  the loading flag is not cleared, the message is the failure message and nothing but the
  lights has been added to the scene.  If every texture loads, construction completes and the
  loading flag is cleared whatever happens to the plant model; a model that fails to load is
  dropped, no plant field and no animation mixer is created, and no failure is reported.
\<close>

theorem initializeScene_failure_policy:
  "((\<exists>p\<in>set texture_manifest. \<exists>e. texServer p = Inl e) \<longrightarrow>
      loading (initializeScene texServer modelServer rnd plane cvn f) = loading f
      \<and> loadingMessage (initializeScene texServer modelServer rnd plane cvn f) = ''Failed to load. Please refresh.''
      \<and> scene (initializeScene texServer modelServer rnd plane cvn f) = scene (setupLighting f))
   \<and> ((\<forall>p\<in>set texture_manifest. \<exists>t. texServer p = Inr t) \<longrightarrow>
      loading (initializeScene texServer modelServer rnd plane cvn f) = False
      \<and> loadingMessage (initializeScene texServer modelServer rnd plane cvn f) \<noteq> ''Failed to load. Please refresh.''
      \<and> ((\<exists>e. modelServer ''/models/plants/tomato_plant.glb'' = Inl e) \<longrightarrow>
            loadingMessage (initializeScene texServer modelServer rnd plane cvn f) = ''Loading plants...''
            \<and> mixers (initializeScene texServer modelServer rnd plane cvn f) = mixers f
            \<and> length (scene (initializeScene texServer modelServer rnd plane cvn f)) = length (scene f) + 5))"
proof (intro conjI impI)
  assume "\<exists>p\<in>set texture_manifest. \<exists>e. texServer p = Inl e"
  then obtain e' where e': "loadTextures texServer = Inl e'"
    using loadTextures_fail by blast
  show "loading (initializeScene texServer modelServer rnd plane cvn f) = loading f"
    by (simp add: initializeScene_def e' setupLighting_def Let_def)
  show "loadingMessage (initializeScene texServer modelServer rnd plane cvn f) = ''Failed to load. Please refresh.''"
    by (simp add: initializeScene_def e' Let_def)
  show "scene (initializeScene texServer modelServer rnd plane cvn f) = scene (setupLighting f)"
    by (simp add: initializeScene_def e' Let_def)
next
  assume "\<forall>p\<in>set texture_manifest. \<exists>t. texServer p = Inr t"
  then obtain m where m: "loadTextures texServer = Inr m"
    using loadTextures_returns by blast
  show "loading (initializeScene texServer modelServer rnd plane cvn f) = False"
    by (simp add: initializeScene_def m Let_def split: prod.splits)
  show "loadingMessage (initializeScene texServer modelServer rnd plane cvn f) \<noteq> ''Failed to load. Please refresh.''"
    by (simp add: initializeScene_def m Let_def loadPlantModels_def createPlantField_def
        List.map_filter_simps split: option.splits list.splits)
  assume "\<exists>e. modelServer ''/models/plants/tomato_plant.glb'' = Inl e"
  then obtain e where e: "modelServer ''/models/plants/tomato_plant.glb'' = Inl e" ..
  have none: "loadPlant modelServer = None"
    by (simp add: loadPlant_def e)
  show "loadingMessage (initializeScene texServer modelServer rnd plane cvn f) = ''Loading plants...''"
    by (simp add: initializeScene_def m Let_def loadPlantModels_def createPlantField_def none
        List.map_filter_simps)
  show "mixers (initializeScene texServer modelServer rnd plane cvn f) = mixers f"
    by (simp add: initializeScene_def m Let_def loadPlantModels_def createPlantField_def none
        List.map_filter_simps createGrass_def addTerrain_def setupLighting_def)
  show "length (scene (initializeScene texServer modelServer rnd plane cvn f)) = length (scene f) + 5"
    by (simp add: initializeScene_def m Let_def loadPlantModels_def createPlantField_def none
        List.map_filter_simps createGrass_def addTerrain_def setupLighting_def)
qed

theorem initializeScene_failure_policy_witness:
  "(\<exists>p\<in>set texture_manifest. \<exists>e. bad_textures p = Inl e)
   \<and> loading (initializeScene bad_textures no_models rnd0 [] id mount_state) = True
   \<and> loadingMessage (initializeScene bad_textures no_models rnd0 [] id mount_state) = ''Failed to load. Please refresh.''
   \<and> list_all (Not \<circ> isl \<circ> good_textures) texture_manifest
   \<and> (\<exists>e. no_models ''/models/plants/tomato_plant.glb'' = Inl e)
   \<and> loading (initializeScene good_textures no_models rnd0 [] id mount_state) = False
   \<and> mixers (initializeScene good_textures no_models rnd0 [] id mount_state) = []"
proof -
  have b: "\<exists>p\<in>set texture_manifest. \<exists>e. bad_textures p = Inl e"
    by (simp add: texture_manifest_def bad_textures_def)
  have g: "\<forall>p\<in>set texture_manifest. \<exists>t. good_textures p = Inr t"
    by (simp add: good_textures_def)
  have n: "\<exists>e. no_models ''/models/plants/tomato_plant.glb'' = Inl e"
    by (simp add: no_models_def)
  have l: "list_all (Not \<circ> isl \<circ> good_textures) texture_manifest"
    by (simp add: good_textures_def texture_manifest_def)
  show ?thesis
    using b g n l
      initializeScene_failure_policy [of bad_textures no_models rnd0 "[]" id mount_state]
      initializeScene_failure_policy [of good_textures no_models rnd0 "[]" id mount_state]
    by (simp add: mount_state_def)
qed

section \<open>Rounding to double precision\<close>

















lemma maxLength_cong: "array_limit s = array_limit t \<Longrightarrow> maxLength s = maxLength t"
  by (simp add: maxLength_def)

lemma maxLength_removed [simp]:
  "maxLength (case rainParticles s of None \<Rightarrow> s
              | Some r \<Rightarrow> (scene_remove r s)\<lparr>rainParticles := None\<rparr>) = maxLength s"
  by (simp add: maxLength_def scene_remove_def split: option.split)


section \<open>The weather engine keeps its handles consistent\<close>

lemma inv0: "engine_inv (WeatherEffects_new scene0)"
  by (simp add: engine_inv_def instances_def refs_where_def WeatherEffects_new_def scene0_def)

lemma instances_mem:
  "r \<in> set (instances K s) \<longleftrightarrow> r \<in> set (scene_children s) \<and> obj_kind (heap s r) = Some K"
  by (simp add: instances_def refs_where_def)

text \<open>Detaching the object of a handle, then perhaps attaching a fresh object of the same kind.\<close>

lemma replace_instances:
  assumes fresh: "\<forall>r\<in>set (scene_children s). r < next_ref s"
    and own: "instances K0 s = handle_list h"
    and ch: "scene_children s' =
               (case new of None \<Rightarrow> rm h (scene_children s)
                | Some ob \<Rightarrow> remove1 (next_ref s) (rm h (scene_children s)) @ [next_ref s])"
    and hp: "\<forall>r<next_ref s. heap s' r = heap s r"
    and kd: "\<forall>ob. new = Some ob \<longrightarrow> obj_kind (heap s' (next_ref s)) = Some K0"
  shows "instances K s' =
           (if K = K0 then (case new of None \<Rightarrow> [] | Some ob \<Rightarrow> [next_ref s])
            else instances K s)"
proof -
  let ?P = "\<lambda>r. obj_kind (heap s r) = Some K"
  have rmsub: "set (rm h (scene_children s)) \<subseteq> set (scene_children s)"
    by (cases h) (simp_all add: set_remove1_subset)
  have frm: "filter ?P (rm h (scene_children s)) = (if K = K0 then [] else instances K s)"
  proof (cases h)
    case None
    with own show ?thesis
      by (auto simp: instances_def refs_where_def)
  next
    case (Some c)
    have "filter ?P (remove1 c (scene_children s)) = remove1 c (instances K s)"
      by (simp add: instances_def refs_where_def filter_remove1)
    moreover have "c \<notin> set (instances K s)" if "K \<noteq> K0"
    proof -
      from own Some have "c \<in> set (instances K0 s)" by simp
      then have "obj_kind (heap s c) = Some K0" by (simp add: instances_mem)
      with that show ?thesis by (auto simp: instances_mem)
    qed
    ultimately show ?thesis
      using own Some by (auto simp: remove1_idem)
  qed
  have same: "filter (\<lambda>r. obj_kind (heap s' r) = Some K) (rm h (scene_children s))
            = filter ?P (rm h (scene_children s))"
    using fresh rmsub hp by (intro filter_cong) auto
  show ?thesis
  proof (cases new)
    case None
    with ch same frm show ?thesis
      by (simp add: instances_def refs_where_def)
  next
    case (Some ob)
    have nin: "next_ref s \<notin> set (rm h (scene_children s))"
      using fresh rmsub by auto
    have ch': "scene_children s' = rm h (scene_children s) @ [next_ref s]"
      using ch Some nin by (simp add: remove1_idem)
    show ?thesis
      using ch' same Some kd frm by (auto simp: instances_def refs_where_def)
  qed
qed

lemma inv_handle:
  "engine_inv s \<Longrightarrow> K \<noteq> KFog \<Longrightarrow> instances K s = handle_list (handle K s)"
  by (cases K) (simp_all add: engine_inv_def)

lemma inv_fresh: "engine_inv s \<Longrightarrow> \<forall>r\<in>set (scene_children s). r < next_ref s"
  by (simp add: engine_inv_def)

lemma replace_inv:
  assumes inv: "engine_inv s" and K0: "K0 \<noteq> KFog"
    and ch: "scene_children s' =
               (case new of None \<Rightarrow> rm (handle K0 s) (scene_children s)
                | Some ob \<Rightarrow> remove1 (next_ref s) (rm (handle K0 s) (scene_children s)) @ [next_ref s])"
    and hp: "heap s' = (case new of None \<Rightarrow> heap s | Some ob \<Rightarrow> (heap s)(next_ref s \<mapsto> ob))"
    and kd: "\<forall>ob. new = Some ob \<longrightarrow> obj_kind (Some ob) = Some K0"
    and nr: "next_ref s' = (case new of None \<Rightarrow> next_ref s | Some ob \<Rightarrow> Suc (next_ref s))"
    and h0: "handle K0 s' = (case new of None \<Rightarrow> None | Some ob \<Rightarrow> Some (next_ref s))"
    and hs: "\<forall>K. K \<noteq> K0 \<longrightarrow> handle K s' = handle K s"
    and ar: "windArrow s' = (if K0 = KIndicator then None else windArrow s)"
    and ind: "K0 = KIndicator \<longrightarrow> new = None"
  shows "engine_inv s'"
proof -
  note fresh = inv_fresh[OF inv]
  have own: "instances K0 s = handle_list (handle K0 s)"
    using inv K0 by (rule inv_handle)
  have inst: "instances K s' =
           (if K = K0 then (case new of None \<Rightarrow> [] | Some ob \<Rightarrow> [next_ref s])
            else instances K s)" for K
  proof (rule replace_instances[OF fresh own ch])
    show "\<forall>r<next_ref s. heap s' r = heap s r"
      using hp by (cases new) simp_all
    show "\<forall>ob. new = Some ob \<longrightarrow> obj_kind (heap s' (next_ref s)) = Some K0"
      using hp kd by auto
  qed
  have hl: "instances K s' = handle_list (handle K s')" if "K \<noteq> KFog" for K
  proof (cases "K = K0")
    case True
    then show ?thesis using inst[of K] h0 by (cases new) simp_all
  next
    case False
    then show ?thesis using inst[of K] hs inv_handle[OF inv that] by simp
  qed
  have rmsub: "set (rm (handle K0 s) (scene_children s)) \<subseteq> set (scene_children s)"
    by (cases "handle K0 s") (simp_all add: set_remove1_subset)
  have bound: "\<forall>r\<in>set (scene_children s'). r < next_ref s'"
  proof (cases new)
    case None
    then show ?thesis using ch nr fresh rmsub by auto
  next
    case (Some ob)
    have "set (scene_children s') \<subseteq> insert (next_ref s) (set (scene_children s))"
      using ch Some rmsub set_remove1_subset[of "next_ref s" "rm (handle K0 s) (scene_children s)"]
      by auto
    then show ?thesis using nr Some fresh by fastforce
  qed
  have keep: "heap s' r = heap s r" if "r < next_ref s" for r
    using hp that by (cases new) simp_all
  have le: "next_ref s \<le> next_ref s'"
    using nr by (cases new) simp_all
  have arrow: "(case windIndicator s' of
           None \<Rightarrow> windArrow s' = None
         | Some g \<Rightarrow>
             (case windArrow s' of
                None \<Rightarrow> False
              | Some a \<Rightarrow> a < next_ref s' \<and> heap s' g = Some (IndicatorGroup a) \<and> isArrow (heap s' a)))"
  proof (cases "K0 = KIndicator")
    case True
    then show ?thesis using h0 ind ar by simp
  next
    case False
    then have wi: "windIndicator s' = windIndicator s" and wa: "windArrow s' = windArrow s"
      using hs[rule_format, of KIndicator] ar by simp_all
    show ?thesis
    proof (cases "windIndicator s")
      case None
      then show ?thesis using inv wi wa by (simp add: engine_inv_def)
    next
      case (Some g)
      then obtain a where a: "windArrow s = Some a" "a < next_ref s"
          "heap s g = Some (IndicatorGroup a)" "isArrow (heap s a)"
        using inv by (auto simp: engine_inv_def split: option.splits)
      have "g \<in> set (instances KIndicator s)"
        using inv Some by (simp add: engine_inv_def)
      then have "g < next_ref s"
        using fresh by (simp add: instances_mem)
      then show ?thesis
        using Some a wi wa keep le by simp
    qed
  qed
  show ?thesis
    unfolding engine_inv_def
    using bound hl[of KClouds] hl[of KRain] hl[of KWind] hl[of KIndicator] arrow
    by simp
qed

lemmas prim_defs = Let_def alloc_def scene_add_def scene_remove_def

lemma updateClouds_shape:
  "scene_children (updateClouds w s)
     = remove1 (next_ref s) (rm (clouds s) (scene_children s)) @ [next_ref s]"
  "heap (updateClouds w s) = (heap s)(next_ref s \<mapsto> new_clouds w s)"
  "next_ref (updateClouds w s) = Suc (next_ref s)"
  "clouds (updateClouds w s) = Some (next_ref s)"
  "rainParticles (updateClouds w s) = rainParticles s"
  "windLines (updateClouds w s) = windLines s"
  "windIndicator (updateClouds w s) = windIndicator s"
  "windArrow (updateClouds w s) = windArrow s"
  "scene_fog (updateClouds w s) = scene_fog s"
  "weatherState (updateClouds w s) = weatherState s"
  "random_src (updateClouds w s) = random_src s"
  "array_limit (updateClouds w s) = array_limit s"
  "fog (updateClouds w s) = fog s"
  by (simp_all add: updateClouds_def new_clouds_def prim_defs split: option.split prod.split)

lemma updateRain_shape:
  "scene_children (final (updateRain w s))
     = (case new_rain w s of None \<Rightarrow> rm (rainParticles s) (scene_children s)
        | Some ob \<Rightarrow> remove1 (next_ref s) (rm (rainParticles s) (scene_children s)) @ [next_ref s])"
  "heap (final (updateRain w s))
     = (case new_rain w s of None \<Rightarrow> heap s | Some ob \<Rightarrow> (heap s)(next_ref s \<mapsto> ob))"
  "next_ref (final (updateRain w s))
     = (case new_rain w s of None \<Rightarrow> next_ref s | Some ob \<Rightarrow> Suc (next_ref s))"
  "rainParticles (final (updateRain w s))
     = (case new_rain w s of None \<Rightarrow> None | Some ob \<Rightarrow> Some (next_ref s))"
  "clouds (final (updateRain w s)) = clouds s"
  "windLines (final (updateRain w s)) = windLines s"
  "windIndicator (final (updateRain w s)) = windIndicator s"
  "windArrow (final (updateRain w s)) = windArrow s"
  "scene_fog (final (updateRain w s)) = scene_fog s"
  "weatherState (final (updateRain w s)) = weatherState s"
  "random_src (final (updateRain w s)) = random_src s"
  "array_limit (final (updateRain w s)) = array_limit s"
  "fog (final (updateRain w s)) = fog s"
  by (simp_all add: updateRain_def new_rain_def prim_defs maxLength_def split: option.split prod.split)

lemma updateWind_shape:
  "scene_children (updateWind w s)
     = (case new_wind w s of None \<Rightarrow> rm (windLines s) (scene_children s)
        | Some ob \<Rightarrow> remove1 (next_ref s) (rm (windLines s) (scene_children s)) @ [next_ref s])"
  "heap (updateWind w s)
     = (case new_wind w s of None \<Rightarrow> heap s | Some ob \<Rightarrow> (heap s)(next_ref s \<mapsto> ob))"
  "next_ref (updateWind w s)
     = (case new_wind w s of None \<Rightarrow> next_ref s | Some ob \<Rightarrow> Suc (next_ref s))"
  "windLines (updateWind w s)
     = (case new_wind w s of None \<Rightarrow> None | Some ob \<Rightarrow> Some (next_ref s))"
  "clouds (updateWind w s) = clouds s"
  "rainParticles (updateWind w s) = rainParticles s"
  "windIndicator (updateWind w s) = windIndicator s"
  "windArrow (updateWind w s) = windArrow s"
  "scene_fog (updateWind w s) = scene_fog s"
  "weatherState (updateWind w s) = weatherState s"
  "random_src (updateWind w s) = random_src s"
  "array_limit (updateWind w s) = array_limit s"
  "fog (updateWind w s) = fog s"
  by (simp_all add: updateWind_def new_wind_def prim_defs split: option.split prod.split)

lemma updateRain_returns:
  "\<not> rain_throws w s \<Longrightarrow> \<exists>s'. updateRain w s = Inr s'"
  by (auto simp: updateRain_def rain_throws_def Let_def split: prod.split)

lemma updateClouds_inv: "engine_inv s \<Longrightarrow> engine_inv (updateClouds w s)"
proof (rule replace_inv[where ?K0.0 = KClouds and new = "Some (new_clouds w s)"])
  show "\<forall>K. K \<noteq> KClouds \<longrightarrow> handle K (updateClouds w s) = handle K s"
  proof (intro allI impI)
    fix K :: kind assume "K \<noteq> KClouds"
    then show "handle K (updateClouds w s) = handle K s"
      by (cases K) (simp_all add: updateClouds_shape)
  qed
qed (simp_all add: updateClouds_shape new_clouds_def)

lemma updateRain_inv: "engine_inv s \<Longrightarrow> engine_inv (final (updateRain w s))"
proof (rule replace_inv[where ?K0.0 = KRain and new = "new_rain w s"])
  show "\<forall>K. K \<noteq> KRain \<longrightarrow> handle K (final (updateRain w s)) = handle K s"
  proof (intro allI impI)
    fix K :: kind assume "K \<noteq> KRain"
    then show "handle K (final (updateRain w s)) = handle K s"
      by (cases K) (simp_all add: updateRain_shape)
  qed
  show "\<forall>ob. new_rain w s = Some ob \<longrightarrow> obj_kind (Some ob) = Some KRain"
    by (auto simp: new_rain_def)
qed (simp_all add: updateRain_shape cong: option.case_cong)

lemma updateWind_inv: "engine_inv s \<Longrightarrow> engine_inv (updateWind w s)"
proof (rule replace_inv[where ?K0.0 = KWind and new = "new_wind w s"])
  show "\<forall>K. K \<noteq> KWind \<longrightarrow> handle K (updateWind w s) = handle K s"
  proof (intro allI impI)
    fix K :: kind assume "K \<noteq> KWind"
    then show "handle K (updateWind w s) = handle K s"
      by (cases K) (simp_all add: updateWind_shape)
  qed
  show "\<forall>ob. new_wind w s = Some ob \<longrightarrow> obj_kind (Some ob) = Some KWind"
    by (auto simp: new_wind_def)
qed (simp_all add: updateWind_shape cong: option.case_cong)

lemma setIntensity_cases:
  "setIntensity v ob = ob \<or> (isLight ob \<and> isLight (setIntensity v ob))"
  by (cases "(v, ob)" rule: setIntensity.cases) simp_all

lemma setHex_cases:
  "setHex h ob = ob \<or> (isLight ob \<and> isLight (setHex h ob))"
  by (cases "(h, ob)" rule: setHex.cases) simp_all

lemma updateLighting_fields:
  "scene_children (updateLighting w s) = scene_children s"
  "next_ref (updateLighting w s) = next_ref s"
  "clouds (updateLighting w s) = clouds s"
  "rainParticles (updateLighting w s) = rainParticles s"
  "windLines (updateLighting w s) = windLines s"
  "windIndicator (updateLighting w s) = windIndicator s"
  "windArrow (updateLighting w s) = windArrow s"
  "scene_fog (updateLighting w s) = scene_fog s"
  "weatherState (updateLighting w s) = weatherState s"
  "random_src (updateLighting w s) = random_src s"
  "random_pos (updateLighting w s) = random_pos s"
  "array_limit (updateLighting w s) = array_limit s"
  "fog (updateLighting w s) = fog s"
  by (simp_all add: updateLighting_def Let_def split: option.split)

lemma updateLighting_heap:
  "heap (updateLighting w s) r = heap s r
   \<or> (isLight (heap s r) \<and> isLight (heap (updateLighting w s) r))"
proof -
  have two: "(((h(a := setIntensity v1 (h a)))(d := setIntensity v2 ((h(a := setIntensity v1 (h a))) d)))
               (d := setHex c (((h(a := setIntensity v1 (h a)))(d := setIntensity v2 ((h(a := setIntensity v1 (h a))) d))) d))) r = h r
             \<or> (isLight (h r) \<and> isLight ((((h(a := setIntensity v1 (h a)))(d := setIntensity v2 ((h(a := setIntensity v1 (h a))) d)))
               (d := setHex c (((h(a := setIntensity v1 (h a)))(d := setIntensity v2 ((h(a := setIntensity v1 (h a))) d))) d))) r))"
    for h :: "ref \<Rightarrow> obj option" and a d v1 v2 c
    using setIntensity_cases[of v1 "h a"] setIntensity_cases[of v2 "h d"]
      setIntensity_cases[of v2 "setIntensity v1 (h a)"]
      setHex_cases[of c "setIntensity v2 (h d)"]
      setHex_cases[of c "setIntensity v2 (setIntensity v1 (h a))"]
    by (cases "r = d"; cases "r = a"; cases "a = d") auto
  show ?thesis
    unfolding updateLighting_def Let_def
    using two by (simp split: option.split)
qed

lemma light_kind: "isLight ob \<Longrightarrow> obj_kind ob = None \<and> \<not> isArrow ob"
  by (cases ob rule: isLight.cases) simp_all

lemma updateLighting_kind: "obj_kind (heap (updateLighting w s) r) = obj_kind (heap s r)"
  using updateLighting_heap[of w s r] light_kind[of "heap s r"]
    light_kind[of "heap (updateLighting w s) r"]
  by auto

lemma updateLighting_keep:
  "\<not> isLight (heap s r) \<Longrightarrow> heap (updateLighting w s) r = heap s r"
  using updateLighting_heap[of w s r] by auto

lemma updateLighting_instances: "instances K (updateLighting w s) = instances K s"
  by (simp add: instances_def refs_where_def updateLighting_fields updateLighting_kind)

lemma updateLighting_inv: "engine_inv s \<Longrightarrow> engine_inv (updateLighting w s)"
proof -
  assume inv: "engine_inv s"
  have arrow: "(case windIndicator s of
           None \<Rightarrow> windArrow s = None
         | Some g \<Rightarrow>
             (case windArrow s of
                None \<Rightarrow> False
              | Some a \<Rightarrow> a < next_ref s \<and> heap (updateLighting w s) g = Some (IndicatorGroup a)
                          \<and> isArrow (heap (updateLighting w s) a)))"
  proof (cases "windIndicator s")
    case None
    then show ?thesis using inv by (simp add: engine_inv_def)
  next
    case (Some g)
    then obtain a where a: "windArrow s = Some a" "a < next_ref s"
        "heap s g = Some (IndicatorGroup a)" "isArrow (heap s a)"
      using inv by (auto simp: engine_inv_def split: option.splits)
    have "\<not> isLight (heap s g)" using a(3) by simp
    moreover have "\<not> isLight (heap s a)" using a(4) light_kind by blast
    ultimately show ?thesis
      using Some a by (simp add: updateLighting_keep)
  qed
  show ?thesis
    unfolding engine_inv_def updateLighting_instances updateLighting_fields
    using inv arrow by (simp add: engine_inv_def)
qed

lemma updateFog_inv: "engine_inv (updateFog w s) = engine_inv s"
  by (simp add: engine_inv_def instances_def refs_where_def updateFog_def Let_def
      cong: option.case_cong)

lemma weatherState_inv: "engine_inv (s\<lparr>weatherState := x\<rparr>) = engine_inv s"
  by (simp add: engine_inv_def instances_def refs_where_def cong: option.case_cong)

lemma updateIndicator_create:
  assumes "0 < windSpeed w" "windIndicator s = None"
  shows "scene_children (updateIndicator w s)
           = remove1 (next_ref s) (scene_children s) @ [next_ref s]"
    "heap (updateIndicator w s)
       = (heap s)(next_ref s \<mapsto> IndicatorGroup (Suc (next_ref s)),
                  Suc (next_ref s) \<mapsto> new_arrow w)"
    "next_ref (updateIndicator w s) = Suc (Suc (next_ref s))"
    "windIndicator (updateIndicator w s) = Some (next_ref s)"
    "windArrow (updateIndicator w s) = Some (Suc (next_ref s))"
  using assms
  by (simp_all add: updateIndicator_def createWindDirectionIndicator_def updateWindDirection_def
      new_arrow_def scene_add_def Let_def)

lemma updateIndicator_update:
  assumes "0 < windSpeed w" "windIndicator s = Some g" "windArrow s = Some a" "isArrow (heap s a)"
  shows "scene_children (updateIndicator w s) = scene_children s"
    "heap (updateIndicator w s) = (heap s)(a \<mapsto> new_arrow w)"
    "next_ref (updateIndicator w s) = next_ref s"
    "windIndicator (updateIndicator w s) = Some g"
    "windArrow (updateIndicator w s) = Some a"
proof -
  from assms(4) obtain rz sc where "heap s a = Some (ArrowMesh rz sc)"
    by (cases "heap s a" rule: isArrow.cases) simp_all
  with assms(1-3) show
    "scene_children (updateIndicator w s) = scene_children s"
    "heap (updateIndicator w s) = (heap s)(a \<mapsto> new_arrow w)"
    "next_ref (updateIndicator w s) = next_ref s"
    "windIndicator (updateIndicator w s) = Some g"
    "windArrow (updateIndicator w s) = Some a"
    by (simp_all add: updateIndicator_def updateWindDirection_def new_arrow_def Let_def)
qed

lemma updateIndicator_remove:
  assumes "\<not> 0 < windSpeed w"
  shows "scene_children (updateIndicator w s) = rm (windIndicator s) (scene_children s)"
    "heap (updateIndicator w s) = heap s"
    "next_ref (updateIndicator w s) = next_ref s"
    "windIndicator (updateIndicator w s) = None"
    "windArrow (updateIndicator w s) = (case windIndicator s of None \<Rightarrow> windArrow s | Some g \<Rightarrow> None)"
  using assms
  by (simp_all add: updateIndicator_def scene_remove_def split: option.split)

lemma updateIndicator_handles:
  "clouds (updateIndicator w s) = clouds s"
  "rainParticles (updateIndicator w s) = rainParticles s"
  "windLines (updateIndicator w s) = windLines s"
  "scene_fog (updateIndicator w s) = scene_fog s"
  "weatherState (updateIndicator w s) = weatherState s"
  "random_src (updateIndicator w s) = random_src s"
  "random_pos (updateIndicator w s) = random_pos s"
  "array_limit (updateIndicator w s) = array_limit s"
  "fog (updateIndicator w s) = fog s"
  by (simp_all add: updateIndicator_def createWindDirectionIndicator_def updateWindDirection_def
      scene_add_def scene_remove_def Let_def split: option.split obj.split)

lemma inv_arrow:
  assumes "engine_inv s" "windIndicator s = Some g"
  obtains a where "windArrow s = Some a" "a < next_ref s" "heap s g = Some (IndicatorGroup a)"
    "isArrow (heap s a)" "g < next_ref s" "g \<in> set (scene_children s)"
proof -
  from assms obtain a where a: "windArrow s = Some a" "a < next_ref s"
      "heap s g = Some (IndicatorGroup a)" "isArrow (heap s a)"
    by (auto simp: engine_inv_def split: option.splits)
  have "g \<in> set (instances KIndicator s)"
    using assms by (simp add: engine_inv_def)
  then have "g \<in> set (scene_children s)" "g < next_ref s"
    using inv_fresh[OF assms(1)] by (simp_all add: instances_mem)
  with a that show ?thesis by blast
qed

lemma updateIndicator_post:
  assumes inv: "engine_inv s"
  shows "engine_inv (updateIndicator w s)"
    and "K \<noteq> KIndicator \<Longrightarrow> instances K (updateIndicator w s) = instances K s"
    and "r < next_ref s \<Longrightarrow> \<not> isArrow (heap s r) \<Longrightarrow> heap (updateIndicator w s) r = heap s r"
    and "next_ref s \<le> next_ref (updateIndicator w s)"
    and "arrow_poses (updateIndicator w s)
           = (if 0 < windSpeed w
              then [Some (degToRad (windDirection w - 180),
                          (1 + windSpeed w / 10, 1 + windSpeed w / 10, 1 + windSpeed w / 10))]
              else [])"
    and "length (instances KIndicator (updateIndicator w s)) = (if 0 < windSpeed w then 1 else 0)"
proof -
  let ?s' = "updateIndicator w s"
  note fresh = inv_fresh[OF inv]
  have hl: "instances K s = handle_list (handle K s)" if "K \<noteq> KFog" for K
    using inv that by (rule inv_handle)
  consider (create) "0 < windSpeed w" "windIndicator s = None"
    | (update) g where "0 < windSpeed w" "windIndicator s = Some g"
    | (remove) "\<not> 0 < windSpeed w"
    by (cases "windIndicator s") auto
  then have all: "engine_inv ?s'
      \<and> (\<forall>K. K \<noteq> KIndicator \<longrightarrow> instances K ?s' = instances K s)
      \<and> (\<forall>r<next_ref s. \<not> isArrow (heap s r) \<longrightarrow> heap ?s' r = heap s r)
      \<and> next_ref s \<le> next_ref ?s'
      \<and> arrow_poses ?s' = (if 0 < windSpeed w
              then [Some (degToRad (windDirection w - 180),
                          (1 + windSpeed w / 10, 1 + windSpeed w / 10, 1 + windSpeed w / 10))]
              else [])
      \<and> length (instances KIndicator ?s') = (if 0 < windSpeed w then 1 else 0)"
  proof cases
    case create
    note sh = updateIndicator_create[OF create]
    have own: "instances KIndicator s = handle_list None"
      using hl[of KIndicator] create(2) by simp
    have inst: "instances K ?s' = (if K = KIndicator
          then (case Some (IndicatorGroup (Suc (next_ref s))) of None \<Rightarrow> [] | Some ob \<Rightarrow> [next_ref s])
          else instances K s)" for K
      by (rule replace_instances[OF fresh own]) (simp_all add: sh)
    have ar: "windArrow s = None"
      using inv create(2) by (simp add: engine_inv_def)
    have bound: "\<forall>r\<in>set (scene_children ?s'). r < next_ref ?s'"
      using fresh set_remove1_subset[of "next_ref s" "scene_children s"]
      by (fastforce simp: sh)
    have "engine_inv ?s'"
      unfolding engine_inv_def
      using bound inst[of KClouds] inst[of KRain] inst[of KWind] inst[of KIndicator]
        hl[of KClouds] hl[of KRain] hl[of KWind]
      by (simp add: sh updateIndicator_handles new_arrow_def)
    moreover have "arrow_poses ?s' = [Some (degToRad (windDirection w - 180),
                          (1 + windSpeed w / 10, 1 + windSpeed w / 10, 1 + windSpeed w / 10))]"
      by (simp add: arrow_poses_def inst sh new_arrow_def)
    ultimately show ?thesis
      using create(1) inst by (simp add: sh)
  next
    case update
    from inv update(2) obtain a where a: "windArrow s = Some a" "a < next_ref s"
        "heap s g = Some (IndicatorGroup a)" "isArrow (heap s a)" "g < next_ref s"
        "g \<in> set (scene_children s)"
      by (rule inv_arrow)
    note sh = updateIndicator_update[OF update a(1) a(4)]
    have ga: "g \<noteq> a" using a(3,4) by auto
    have kind: "obj_kind (heap ?s' r) = obj_kind (heap s r)" for r
      using a(4) by (cases "heap s a" rule: isArrow.cases) (simp_all add: sh new_arrow_def)
    have inst: "instances K ?s' = instances K s" for K
      by (simp add: instances_def refs_where_def sh(1) kind)
    have "engine_inv ?s'"
      unfolding engine_inv_def
      using inv a ga by (simp add: inst sh updateIndicator_handles engine_inv_def
          update(2) new_arrow_def)
    moreover have "arrow_poses ?s' = [Some (degToRad (windDirection w - 180),
                          (1 + windSpeed w / 10, 1 + windSpeed w / 10, 1 + windSpeed w / 10))]"
      using hl[of KIndicator] update(2) a(3) ga
      by (simp add: arrow_poses_def inst sh(2) new_arrow_def)
    moreover have "heap ?s' r = heap s r" if "\<not> isArrow (heap s r)" for r
      using that a(4) by (auto simp: sh(2))
    ultimately show ?thesis
      using update(1) inst hl[of KIndicator] update(2) by (simp add: sh(3))
  next
    case remove
    note sh = updateIndicator_remove[OF remove]
    have "engine_inv ?s'"
    proof (rule replace_inv[OF inv, where ?K0.0 = KIndicator and new = None])
      show "\<forall>K. K \<noteq> KIndicator \<longrightarrow> handle K ?s' = handle K s"
      proof (intro allI impI)
        fix K :: kind assume "K \<noteq> KIndicator"
        then show "handle K ?s' = handle K s"
          by (cases K) (simp_all add: updateIndicator_handles)
      qed
      show "windArrow ?s' = (if KIndicator = KIndicator then None else windArrow s)"
        using inv by (simp add: sh engine_inv_def split: option.splits)
    qed (simp_all add: sh)
    moreover have inst: "instances K ?s' = (if K = KIndicator
          then (case None :: obj option of None \<Rightarrow> [] | Some ob \<Rightarrow> [next_ref s])
          else instances K s)" for K
      by (rule replace_instances[OF fresh hl[of KIndicator]]) (simp_all add: sh)
    ultimately show ?thesis
      using remove by (simp add: sh arrow_poses_def)
  qed
  from all show "engine_inv ?s'" by blast
  from all show "K \<noteq> KIndicator \<Longrightarrow> instances K ?s' = instances K s" by blast
  from all show "r < next_ref s \<Longrightarrow> \<not> isArrow (heap s r) \<Longrightarrow> heap ?s' r = heap s r" by blast
  from all show "next_ref s \<le> next_ref ?s'" by blast
  from all show "arrow_poses ?s' = (if 0 < windSpeed w
              then [Some (degToRad (windDirection w - 180),
                          (1 + windSpeed w / 10, 1 + windSpeed w / 10, 1 + windSpeed w / 10))]
              else [])" by blast
  from all show "length (instances KIndicator ?s') = (if 0 < windSpeed w then 1 else 0)" by blast
qed

lemma cloudLoop_length:
  "length (fst (cloudLoop rnd i n acc k)) = length acc + (nat \<lceil>n\<rceil> - i)"
proof (induction rnd i n acc k rule: cloudLoop.induct)
  case (1 rnd i cloudCount acc k)
  show ?case
  proof (cases "real i < cloudCount")
    case True
    then have "int i < \<lceil>cloudCount\<rceil>" by linarith
    then have "nat \<lceil>cloudCount\<rceil> - i = Suc (nat \<lceil>cloudCount\<rceil> - (i + 1))" by linarith
    then show ?thesis
      using 1[OF True] True by (subst cloudLoop.simps) simp
  next
    case False
    then have "\<lceil>cloudCount\<rceil> \<le> int i" by (simp add: ceiling_le_iff)
    then have "nat \<lceil>cloudCount\<rceil> - i = 0" by linarith
    then show ?thesis
      using False by (subst cloudLoop.simps) simp
  qed
qed

lemma rainFill_length: "length (fst (rainFill rnd i n ps k)) = length ps"
proof (induction rnd i n ps k rule: rainFill.induct)
  case (1 rnd i particleCount positions k)
  show ?case
  proof (cases "i < particleCount")
    case True
    then show ?thesis using 1[OF True] by (subst rainFill.simps) simp
  next
    case False
    then show ?thesis by (subst rainFill.simps) simp
  qed
qed

lemma length_writeAt: "length (writeAt j vs ps) = length ps"
  by (induction vs arbitrary: j ps) auto

lemma windFill_length: "length (fst (windFill rnd speed i n ps k)) = length ps"
proof (induction rnd speed i n ps k rule: windFill.induct)
  case (1 rnd speed i lineCount positions k)
  show ?case
  proof (cases "i < lineCount")
    case True
    then show ?thesis using 1[OF True] by (subst windFill.simps) (simp add: length_writeAt)
  next
    case False
    then show ?thesis by (subst windFill.simps) simp
  qed
qed

text \<open>What a step leaves alone: the instances of a kind and their objects.\<close>

lemma view_frame:
  assumes "instances K s' = instances K s"
    and "\<forall>r\<in>set (instances K s). heap s' r = heap s r"
  shows "map (\<lambda>r. f (heap s' r)) (instances K s') = map (\<lambda>r. f (heap s r)) (instances K s)"
  using assms by (simp cong: map_cong)

lemma instances_bound:
  "engine_inv s \<Longrightarrow> r \<in> set (instances K s) \<Longrightarrow> r < next_ref s"
  using inv_fresh by (auto simp: instances_mem)

lemma arrows_frame:
  assumes inv: "engine_inv s"
    and inst: "instances KIndicator s' = instances KIndicator s"
    and hp: "\<forall>r<next_ref s. obj_kind (heap s r) = Some KIndicator \<or> isArrow (heap s r)
               \<longrightarrow> heap s' r = heap s r"
  shows "arrow_poses s' = arrow_poses s"
proof (cases "windIndicator s")
  case None
  then have "instances KIndicator s = []"
    using inv by (simp add: engine_inv_def)
  then show ?thesis using inst by (simp add: arrow_poses_def)
next
  case (Some g)
  with inv obtain a where a: "windArrow s = Some a" "a < next_ref s"
      "heap s g = Some (IndicatorGroup a)" "isArrow (heap s a)" "g < next_ref s"
      "g \<in> set (scene_children s)"
    by (rule inv_arrow)
  have "instances KIndicator s = [g]"
    using inv Some by (simp add: engine_inv_def)
  moreover have "heap s' g = heap s g" "heap s' a = heap s a"
    using hp a by simp_all
  ultimately show ?thesis
    using inst a(3) by (simp add: arrow_poses_def)
qed

lemma replace_view:
  assumes inv: "engine_inv s" and K0: "K0 \<noteq> KFog"
    and ch: "scene_children s' =
               (case new of None \<Rightarrow> rm (handle K0 s) (scene_children s)
                | Some ob \<Rightarrow> remove1 (next_ref s) (rm (handle K0 s) (scene_children s)) @ [next_ref s])"
    and hp: "heap s' = (case new of None \<Rightarrow> heap s | Some ob \<Rightarrow> (heap s)(next_ref s \<mapsto> ob))"
    and kd: "\<forall>ob. new = Some ob \<longrightarrow> obj_kind (Some ob) = Some K0"
  shows "map (\<lambda>r. f (heap s' r)) (instances K s') =
           (if K = K0 then (case new of None \<Rightarrow> [] | Some ob \<Rightarrow> [f (Some ob)])
            else map (\<lambda>r. f (heap s r)) (instances K s))"
    and "K0 \<noteq> KIndicator \<Longrightarrow> arrow_poses s' = arrow_poses s"
proof -
  note fresh = inv_fresh[OF inv]
  have keep: "\<forall>r<next_ref s. heap s' r = heap s r"
    using hp by (cases new) simp_all
  have inst: "instances K s' =
           (if K = K0 then (case new of None \<Rightarrow> [] | Some ob \<Rightarrow> [next_ref s])
            else instances K s)" for K
  proof (rule replace_instances[OF fresh inv_handle[OF inv K0] ch keep])
    show "\<forall>ob. new = Some ob \<longrightarrow> obj_kind (heap s' (next_ref s)) = Some K0"
      using hp kd by auto
  qed
  show "map (\<lambda>r. f (heap s' r)) (instances K s') =
           (if K = K0 then (case new of None \<Rightarrow> [] | Some ob \<Rightarrow> [f (Some ob)])
            else map (\<lambda>r. f (heap s r)) (instances K s))"
  proof (cases "K = K0")
    case True
    then show ?thesis using inst[of K] hp by (cases new) simp_all
  next
    case False
    have "map (\<lambda>r. f (heap s' r)) (instances K s') = map (\<lambda>r. f (heap s r)) (instances K s)"
      using inst[of K] False keep instances_bound[OF inv] by (intro view_frame) auto
    then show ?thesis using False by simp
  qed
  show "arrow_poses s' = arrow_poses s" if "K0 \<noteq> KIndicator"
    using inv inst[of KIndicator] that keep by (intro arrows_frame) auto
qed

lemma same_scene_counts:
  assumes "heap s' = heap s" "scene_children s' = scene_children s"
  shows "cloud_counts s' = cloud_counts s" "particle_counts s' = particle_counts s"
    "streak_counts s' = streak_counts s" "arrow_poses s' = arrow_poses s"
  unfolding cloud_counts_def particle_counts_def streak_counts_def arrow_poses_def
    instances_def refs_where_def assms
  by simp_all

lemma kind_not_light: "obj_kind ob = Some K \<Longrightarrow> \<not> isLight ob"
  using light_kind by fastforce

lemma arrow_not_light: "isArrow ob \<Longrightarrow> \<not> isLight ob"
  using light_kind by blast

lemma updateLighting_counts:
  assumes inv: "engine_inv s"
  shows "cloud_counts (updateLighting w s) = cloud_counts s"
    "particle_counts (updateLighting w s) = particle_counts s"
    "streak_counts (updateLighting w s) = streak_counts s"
    "arrow_poses (updateLighting w s) = arrow_poses s"
proof -
  have keep: "\<forall>r\<in>set (instances K s). heap (updateLighting w s) r = heap s r" for K
    by (auto simp: instances_mem intro!: updateLighting_keep kind_not_light)
  show "cloud_counts (updateLighting w s) = cloud_counts s"
    unfolding cloud_counts_def by (rule view_frame[OF updateLighting_instances keep])
  show "particle_counts (updateLighting w s) = particle_counts s"
    unfolding particle_counts_def by (rule view_frame[OF updateLighting_instances keep])
  show "streak_counts (updateLighting w s) = streak_counts s"
    unfolding streak_counts_def by (rule view_frame[OF updateLighting_instances keep])
  have "\<forall>r<next_ref s. obj_kind (heap s r) = Some KIndicator \<or> isArrow (heap s r)
          \<longrightarrow> heap (updateLighting w s) r = heap s r"
    using updateLighting_keep kind_not_light arrow_not_light by blast
  then show "arrow_poses (updateLighting w s) = arrow_poses s"
    by (rule arrows_frame[OF inv updateLighting_instances])
qed

lemma updateClouds_counts:
  assumes inv: "engine_inv s"
  shows "cloud_counts (updateClouds w s) = [nat \<lceil>cloudCountOf w\<rceil>]"
    "particle_counts (updateClouds w s) = particle_counts s"
    "streak_counts (updateClouds w s) = streak_counts s"
    "arrow_poses (updateClouds w s) = arrow_poses s"
proof -
  have rv: "map (\<lambda>r. f (heap (updateClouds w s) r)) (instances K (updateClouds w s))
      = (if K = KClouds then [f (Some (new_clouds w s))]
         else map (\<lambda>r. f (heap s r)) (instances K s))" for f K
    using replace_view(1)[OF inv, where ?K0.0 = KClouds and new = "Some (new_clouds w s)"
        and s' = "updateClouds w s" and f = f and K = K]
    by (simp add: updateClouds_shape new_clouds_def)
  show "cloud_counts (updateClouds w s) = [nat \<lceil>cloudCountOf w\<rceil>]"
    unfolding cloud_counts_def rv by (simp add: new_clouds_def cloudLoop_length)
  show "particle_counts (updateClouds w s) = particle_counts s"
    unfolding particle_counts_def rv by simp
  show "streak_counts (updateClouds w s) = streak_counts s"
    unfolding streak_counts_def rv by simp
  show "arrow_poses (updateClouds w s) = arrow_poses s"
    using replace_view(2)[OF inv, where ?K0.0 = KClouds and new = "Some (new_clouds w s)"
        and s' = "updateClouds w s"]
    by (simp add: updateClouds_shape new_clouds_def)
qed

lemma new_rain_count:
  "new_rain w s = Some ob \<Longrightarrow>
     particle_count (Some ob) = nat (particleCountOf w) \<and> obj_kind (Some ob) = Some KRain"
  by (auto simp: new_rain_def rainFill_length nat_mult_distrib split: if_splits)

lemma new_wind_count:
  "new_wind w s = Some ob \<Longrightarrow> streak_count (Some ob) = 50 \<and> obj_kind (Some ob) = Some KWind"
  by (auto simp: new_wind_def windFill_length split: if_splits)

lemma updateRain_counts:
  assumes inv: "engine_inv s"
  shows "particle_counts (final (updateRain w s))
           = (if rain_like w \<and> \<not> rain_throws w s then [nat (particleCountOf w)] else [])"
    "cloud_counts (final (updateRain w s)) = cloud_counts s"
    "streak_counts (final (updateRain w s)) = streak_counts s"
    "arrow_poses (final (updateRain w s)) = arrow_poses s"
proof -
  have kd: "\<forall>ob. new_rain w s = Some ob \<longrightarrow> obj_kind (Some ob) = Some KRain"
    using new_rain_count by blast
  have rv: "map (\<lambda>r. f (heap (final (updateRain w s)) r)) (instances K (final (updateRain w s)))
      = (if K = KRain then (case new_rain w s of None \<Rightarrow> [] | Some ob \<Rightarrow> [f (Some ob)])
         else map (\<lambda>r. f (heap s r)) (instances K s))" for f K
    using replace_view(1)[OF inv, where ?K0.0 = KRain and new = "new_rain w s"
        and s' = "final (updateRain w s)" and f = f and K = K] kd
    by (simp add: updateRain_shape cong: option.case_cong)
  have some: "new_rain w s \<noteq> None \<longleftrightarrow> rain_like w \<and> \<not> rain_throws w s"
    by (auto simp: new_rain_def rain_throws_def)
  show "particle_counts (final (updateRain w s))
           = (if rain_like w \<and> \<not> rain_throws w s then [nat (particleCountOf w)] else [])"
    unfolding particle_counts_def rv using some new_rain_count[of w s]
    by (cases "new_rain w s") auto
  show "cloud_counts (final (updateRain w s)) = cloud_counts s"
    unfolding cloud_counts_def rv by simp
  show "streak_counts (final (updateRain w s)) = streak_counts s"
    unfolding streak_counts_def rv by simp
  show "arrow_poses (final (updateRain w s)) = arrow_poses s"
    using replace_view(2)[OF inv, where ?K0.0 = KRain and new = "new_rain w s"
        and s' = "final (updateRain w s)"] kd
    by (simp add: updateRain_shape cong: option.case_cong)
qed

lemma updateWind_counts:
  assumes inv: "engine_inv s"
  shows "streak_counts (updateWind w s) = (if 3 < windSpeed w then [50] else [])"
    "cloud_counts (updateWind w s) = cloud_counts s"
    "particle_counts (updateWind w s) = particle_counts s"
    "arrow_poses (updateWind w s) = arrow_poses s"
proof -
  have kd: "\<forall>ob. new_wind w s = Some ob \<longrightarrow> obj_kind (Some ob) = Some KWind"
    using new_wind_count by blast
  have rv: "map (\<lambda>r. f (heap (updateWind w s) r)) (instances K (updateWind w s))
      = (if K = KWind then (case new_wind w s of None \<Rightarrow> [] | Some ob \<Rightarrow> [f (Some ob)])
         else map (\<lambda>r. f (heap s r)) (instances K s))" for f K
    using replace_view(1)[OF inv, where ?K0.0 = KWind and new = "new_wind w s"
        and s' = "updateWind w s" and f = f and K = K] kd
    by (simp add: updateWind_shape cong: option.case_cong)
  have some: "new_wind w s \<noteq> None \<longleftrightarrow> 3 < windSpeed w"
    by (simp add: new_wind_def)
  show "streak_counts (updateWind w s) = (if 3 < windSpeed w then [50] else [])"
    unfolding streak_counts_def rv using some new_wind_count[of w s]
    by (cases "new_wind w s") auto
  show "cloud_counts (updateWind w s) = cloud_counts s"
    unfolding cloud_counts_def rv by simp
  show "particle_counts (updateWind w s) = particle_counts s"
    unfolding particle_counts_def rv by simp
  show "arrow_poses (updateWind w s) = arrow_poses s"
    using replace_view(2)[OF inv, where ?K0.0 = KWind and new = "new_wind w s"
        and s' = "updateWind w s"] kd
    by (simp add: updateWind_shape cong: option.case_cong)
qed

lemma updateIndicator_counts:
  assumes inv: "engine_inv s"
  shows "cloud_counts (updateIndicator w s) = cloud_counts s"
    "particle_counts (updateIndicator w s) = particle_counts s"
    "streak_counts (updateIndicator w s) = streak_counts s"
proof -
  have keep: "\<forall>r\<in>set (instances K s). heap (updateIndicator w s) r = heap s r" for K
  proof
    fix r assume r: "r \<in> set (instances K s)"
    then have "obj_kind (heap s r) = Some K" by (simp add: instances_mem)
    then have "\<not> isArrow (heap s r)"
      by (cases "heap s r" rule: isArrow.cases) simp_all
    then show "heap (updateIndicator w s) r = heap s r"
      using updateIndicator_post(3)[OF inv] instances_bound[OF inv r] by blast
  qed
  show "cloud_counts (updateIndicator w s) = cloud_counts s"
    unfolding cloud_counts_def
    by (rule view_frame[OF updateIndicator_post(2)[OF inv] keep]) simp
  show "particle_counts (updateIndicator w s) = particle_counts s"
    unfolding particle_counts_def
    by (rule view_frame[OF updateIndicator_post(2)[OF inv] keep]) simp
  show "streak_counts (updateIndicator w s) = streak_counts s"
    unfolding streak_counts_def
    by (rule view_frame[OF updateIndicator_post(2)[OF inv] keep]) simp
qed

lemma updateRain_isl: "isl (updateRain w s) \<longleftrightarrow> rain_throws w s"
  by (auto simp: updateRain_def rain_throws_def Let_def split: prod.split)

lemma updateWeather_unfold:
  "updateWeather w s =
     (case updateRain w (before_rain w s) of
        Inl e \<Rightarrow> Inl e
      | Inr s3 \<Rightarrow> Inr (updateIndicator w (updateWind w s3)))"
  by (simp add: updateWeather_def updateEffects_def before_rain_def updateFog_def
      updateLighting_fields updateClouds_shape Let_def)

lemma before_rain_limit: "array_limit (before_rain w s) = array_limit s"
  by (simp add: before_rain_def updateClouds_shape updateLighting_fields updateFog_def Let_def)

lemma rain_throws_before_rain: "rain_throws w (before_rain w s) = rain_throws w s"
  by (simp add: rain_throws_def maxLength_def before_rain_limit)


lemma final_updateWeather:
  "final (updateWeather w s) =
     (if rain_throws w s then final (updateRain w (before_rain w s))
      else updateIndicator w (updateWind w (final (updateRain w (before_rain w s)))))"
  using updateRain_isl[of w "before_rain w s"]
  by (cases "updateRain w (before_rain w s)")
     (auto simp: updateWeather_unfold rain_throws_before_rain)


lemma updateWeather_fog: "fog (final (updateWeather w s)) \<noteq> None"
  by (simp add: final_updateWeather updateIndicator_handles updateWind_shape updateRain_shape
      before_rain_def updateClouds_shape updateLighting_fields updateFog_def Let_def)

lemma updateWeather_limit: "array_limit (final (updateWeather w s)) = array_limit s"
  by (simp add: final_updateWeather updateIndicator_handles updateWind_shape updateRain_shape
      before_rain_limit)



lemma rain_throws_again: "rain_throws w (final (updateWeather v s)) = rain_throws w s"
  by (simp add: rain_throws_def maxLength_def updateWeather_limit)


lemma before_rain_inv: "engine_inv s \<Longrightarrow> engine_inv (before_rain w s)"
  unfolding before_rain_def
  by (intro updateClouds_inv updateLighting_inv) (simp add: updateFog_inv weatherState_inv)

lemma before_rain_counts:
  assumes inv: "engine_inv s"
  shows "cloud_counts (before_rain w s) = [nat \<lceil>cloudCountOf w\<rceil>]"
    "particle_counts (before_rain w s) = particle_counts s"
    "streak_counts (before_rain w s) = streak_counts s"
    "arrow_poses (before_rain w s) = arrow_poses s"
proof -
  let ?s1 = "updateFog w (s\<lparr>weatherState := Some w\<rparr>)"
  have i1: "engine_inv ?s1" using inv by (simp add: updateFog_inv weatherState_inv)
  have i2: "engine_inv (updateLighting w ?s1)" using i1 by (rule updateLighting_inv)
  have h: "heap ?s1 = heap s" "scene_children ?s1 = scene_children s"
    by (simp_all add: updateFog_def Let_def)
  note c1 = same_scene_counts[OF h]
  note c2 = updateLighting_counts[OF i1, of w]
  note c3 = updateClouds_counts[OF i2, of w]
  show "cloud_counts (before_rain w s) = [nat \<lceil>cloudCountOf w\<rceil>]"
    unfolding before_rain_def by (rule c3(1))
  show "particle_counts (before_rain w s) = particle_counts s"
    unfolding before_rain_def by (simp only: c3 c2 c1)
  show "streak_counts (before_rain w s) = streak_counts s"
    unfolding before_rain_def by (simp only: c3 c2 c1)
  show "arrow_poses (before_rain w s) = arrow_poses s"
    unfolding before_rain_def by (simp only: c3 c2 c1)
qed

lemma before_rain_fields:
  "scene_fog (before_rain w s) = Some (FogExp2 8900331 (0.001 + humidity w / 100 * 0.002))"
  "weatherState (before_rain w s) = Some w"
  by (simp_all add: before_rain_def updateClouds_shape updateLighting_fields updateFog_def Let_def)

lemma updateWeather_fields:
  "scene_fog (final (updateWeather w s)) = Some (FogExp2 8900331 (0.001 + humidity w / 100 * 0.002))"
  "weatherState (final (updateWeather w s)) = Some w"
  by (simp_all add: final_updateWeather updateIndicator_handles updateWind_shape updateRain_shape
      before_rain_fields)

lemma updateWeather_inv: "engine_inv s \<Longrightarrow> engine_inv (final (updateWeather w s))"
  unfolding final_updateWeather
  by (auto intro!: updateIndicator_post(1) updateWind_inv updateRain_inv before_rain_inv)


lemma updates_inv: "engine_inv s \<Longrightarrow> engine_inv (updates ws s)"
  by (induction ws arbitrary: s) (simp_all add: updateWeather_inv)

lemma inv_live_count: "engine_inv s \<Longrightarrow> live_count K s \<le> 1"
proof (cases "K = KFog")
  case True
  then show ?thesis by (simp add: live_count_def split: option.split)
next
  case False
  assume "engine_inv s"
  then have "instances K s = handle_list (handle K s)"
    using False by (rule inv_handle)
  then show ?thesis
    using False by (cases "handle K s") (simp_all add: live_count_def)
qed

lemma updateWeather_counts:
  assumes inv: "engine_inv s" and ok: "\<not> rain_throws w s"
  shows "cloud_counts (final (updateWeather w s)) = [nat \<lceil>cloudCountOf w\<rceil>]"
    "particle_counts (final (updateWeather w s))
       = (if rain_like w then [nat (particleCountOf w)] else [])"
    "streak_counts (final (updateWeather w s)) = (if 3 < windSpeed w then [50] else [])"
    "arrow_poses (final (updateWeather w s))
       = (if 0 < windSpeed w
          then [Some (degToRad (windDirection w - 180),
                      (1 + windSpeed w / 10, 1 + windSpeed w / 10, 1 + windSpeed w / 10))]
          else [])"
    "length (instances KIndicator (final (updateWeather w s))) = (if 0 < windSpeed w then 1 else 0)"
proof -
  let ?s2 = "before_rain w s"
  let ?s3 = "final (updateRain w ?s2)"
  let ?s4 = "updateWind w ?s3"
  have fin: "final (updateWeather w s) = updateIndicator w ?s4"
    using ok by (auto simp: final_updateWeather)
  have i2: "engine_inv ?s2" using inv by (rule before_rain_inv)
  have i3: "engine_inv ?s3" using i2 by (rule updateRain_inv)
  have i4: "engine_inv ?s4" using i3 by (rule updateWind_inv)
  note c2 = before_rain_counts[OF inv, of w]
  note c3 = updateRain_counts[OF i2, of w]
  note c4 = updateWind_counts[OF i3, of w]
  note c5 = updateIndicator_counts[OF i4, of w]
  show "cloud_counts (final (updateWeather w s)) = [nat \<lceil>cloudCountOf w\<rceil>]"
    by (simp only: fin c5 c4 c3 c2)
  show "particle_counts (final (updateWeather w s))
       = (if rain_like w then [nat (particleCountOf w)] else [])"
    using ok by (auto simp: fin c5 c4 c3 rain_throws_before_rain)
  show "streak_counts (final (updateWeather w s)) = (if 3 < windSpeed w then [50] else [])"
    by (simp only: fin c5 c4)
  show "arrow_poses (final (updateWeather w s))
       = (if 0 < windSpeed w
          then [Some (degToRad (windDirection w - 180),
                      (1 + windSpeed w / 10, 1 + windSpeed w / 10, 1 + windSpeed w / 10))]
          else [])"
    unfolding fin by (rule updateIndicator_post(5)[OF i4])
  show "length (instances KIndicator (final (updateWeather w s))) = (if 0 < windSpeed w then 1 else 0)"
    unfolding fin by (rule updateIndicator_post(6)[OF i4])
qed

lemma str_includes_sublist: "str_includes s p \<longleftrightarrow> sublist p s"
  by (induction s) (auto simp: sublist_Cons_right)

lemma sublist_map_iff:
  "sublist p (map f l) \<longleftrightarrow> (\<exists>xs u ys. l = xs @ u @ ys \<and> map f u = p)"
proof
  assume "sublist p (map f l)"
  then obtain ps ss where e: "map f l = ps @ p @ ss"
    unfolding sublist_def by blast
  let ?u = "take (length p) (drop (length ps) l)"
  have "map f ?u = take (length p) (drop (length ps) (map f l))"
    by (simp only: take_map drop_map)
  also have "\<dots> = p"
    unfolding e by simp
  finally have u: "map f ?u = p" .
  have "l = take (length ps) l @ ?u @ drop (length p) (drop (length ps) l)"
    by (simp only: append_take_drop_id)
  with u show "\<exists>xs u ys. l = xs @ u @ ys \<and> map f u = p"
    by blast
next
  assume "\<exists>xs u ys. l = xs @ u @ ys \<and> map f u = p"
  then obtain xs u ys where "l = xs @ u @ ys" "map f u = p" by blast
  then have "map f l = map f xs @ p @ map f ys"
    by simp
  then show "sublist p (map f l)"
    unfolding sublist_def by blast
qed

lemma rain_like_ci: "rain_like w \<longleftrightarrow> contains_ci (conditions w) ''rain''"
proof -
  have low: "toLowerCase ''rain'' = ''rain''"
    by (simp add: toLowerCase_def)
  show ?thesis
    unfolding rain_like_def contains_ci_def str_includes_sublist low
    unfolding toLowerCase_def by (rule sublist_map_iff)
qed

section \<open>Properties of \<open>updateWeather\<close>\<close>

lemma new_inv: "fresh_scene sc \<Longrightarrow> engine_inv (WeatherEffects_new sc)"
proof -
  assume f: "fresh_scene sc"
  have "filter (\<lambda>r. obj_kind (heap sc r) = Some K) (scene_children sc) = []" for K
    using f by (auto simp: fresh_scene_def filter_empty_conv)
  then show ?thesis
    using f by (simp add: engine_inv_def instances_def refs_where_def WeatherEffects_new_def
        fresh_scene_def)
qed

lemma scene0_fresh: "fresh_scene scene0"
  by (simp add: fresh_scene_def scene0_def)

lemma reachable_inv: "fresh_scene sc \<Longrightarrow> engine_inv (updates ws (WeatherEffects_new sc))"
  by (intro updates_inv new_inv)

text \<open>
  Claim C1.  The engine is created on a scene that holds no effect object.  After every call
  of every sequence of \<open>updateWeather\<close> calls, whether the calls returned or threw, the
  scene holds at most one live instance of each effect kind: clouds, rain particles, wind
  streaks, fog and wind indicator.
\<close>

theorem at_most_one_instance_per_kind:
  assumes "fresh_scene sc"
  shows "\<forall>n\<le>length ws. \<forall>K. live_count K (updates (take n ws) (WeatherEffects_new sc)) \<le> 1"
  using reachable_inv[OF assms] inv_live_count by blast

theorem at_most_one_instance_per_kind_witness:
  "fresh_scene scene0
   \<and> live_count KRain (updates [w_rain, w_clear] (WeatherEffects_new scene0)) \<le> 1
   \<and> live_count KIndicator (updates [w_rain] (WeatherEffects_new scene0)) \<le> 1"
proof -
  have f: "fresh_scene scene0"
    by (simp add: fresh_scene_def scene0_def)
  have t: "take 2 [w_rain, w_clear] = [w_rain, w_clear]" "take 1 [w_rain, w_clear] = [w_rain]"
    by simp_all
  have "(2::nat) \<le> length [w_rain, w_clear]" "(1::nat) \<le> length [w_rain, w_clear]"
    by simp_all
  with at_most_one_instance_per_kind [OF f, of "[w_rain, w_clear]"]
  have "live_count KRain (updates (take 2 [w_rain, w_clear]) (WeatherEffects_new scene0)) \<le> 1"
    "live_count KIndicator (updates (take 1 [w_rain, w_clear]) (WeatherEffects_new scene0)) \<le> 1"
    by blast+
  then show ?thesis
    using f unfolding t by blast
qed








lemma rain_label_casings:
  "contains_ci ''Rain'' ''rain'' \<and> contains_ci ''rain'' ''rain'' \<and> contains_ci ''RAIN'' ''rain''
   \<and> \<not> contains_ci ''Clear'' ''rain''"
  using rain_like_ci [of "\<lparr>conditions = ''Rain'', temperature = 0, windSpeed = 0, humidity = 0,
                           windDirection = 0\<rparr>"]
    rain_like_ci [of "\<lparr>conditions = ''rain'', temperature = 0, windSpeed = 0, humidity = 0,
                       windDirection = 0\<rparr>"]
    rain_like_ci [of "\<lparr>conditions = ''RAIN'', temperature = 0, windSpeed = 0, humidity = 0,
                       windDirection = 0\<rparr>"]
    rain_like_ci [of "\<lparr>conditions = ''Clear'', temperature = 0, windSpeed = 0, humidity = 0,
                       windDirection = 0\<rparr>"]
  by (simp add: rain_like_def toLowerCase_def)




section \<open>Disposal, the per-frame step and repeated updates\<close>

lemma animate_without_weather_aux: "weatherState s = None \<Longrightarrow> animate delta s = s"
  by (simp add: animate_def)

lemma animateClouds_fields:
  "scene_children (animateClouds delta w s) = scene_children s"
  "scene_fog (animateClouds delta w s) = scene_fog s"
  "next_ref (animateClouds delta w s) = next_ref s"
  "clouds (animateClouds delta w s) = clouds s"
  "rainParticles (animateClouds delta w s) = rainParticles s"
  "windLines (animateClouds delta w s) = windLines s"
  "windIndicator (animateClouds delta w s) = windIndicator s"
  "windArrow (animateClouds delta w s) = windArrow s"
  "weatherState (animateClouds delta w s) = weatherState s"
  by (simp_all add: animateClouds_def Let_def split: option.split obj.split)

lemma animateRain_fields:
  "scene_children (animateRain delta s) = scene_children s"
  "scene_fog (animateRain delta s) = scene_fog s"
  "next_ref (animateRain delta s) = next_ref s"
  "clouds (animateRain delta s) = clouds s"
  "rainParticles (animateRain delta s) = rainParticles s"
  "windLines (animateRain delta s) = windLines s"
  "windIndicator (animateRain delta s) = windIndicator s"
  "windArrow (animateRain delta s) = windArrow s"
  "weatherState (animateRain delta s) = weatherState s"
  by (simp_all add: animateRain_def Let_def split: option.split obj.split prod.split)

lemma animateWind_fields:
  "scene_children (animateWind delta w s) = scene_children s"
  "scene_fog (animateWind delta w s) = scene_fog s"
  "next_ref (animateWind delta w s) = next_ref s"
  "clouds (animateWind delta w s) = clouds s"
  "rainParticles (animateWind delta w s) = rainParticles s"
  "windLines (animateWind delta w s) = windLines s"
  "windIndicator (animateWind delta w s) = windIndicator s"
  "windArrow (animateWind delta w s) = windArrow s"
  "weatherState (animateWind delta w s) = weatherState s"
  by (simp_all add: animateWind_def Let_def split: option.split obj.split prod.split)

lemma animate_Some:
  "weatherState s = Some w \<Longrightarrow>
     animate delta s = animateWind delta w (animateRain delta (animateClouds delta w s))"
  by (simp add: animate_def Let_def animateClouds_fields animateRain_fields)

lemma animate_fields:
  "scene_children (animate delta s) = scene_children s"
  "scene_fog (animate delta s) = scene_fog s"
  "next_ref (animate delta s) = next_ref s"
  "clouds (animate delta s) = clouds s"
  "rainParticles (animate delta s) = rainParticles s"
  "windLines (animate delta s) = windLines s"
  "windIndicator (animate delta s) = windIndicator s"
  "windArrow (animate delta s) = windArrow s"
  "weatherState (animate delta s) = weatherState s"
  by (cases "weatherState s";
      simp add: animate_Some animateClouds_fields animateRain_fields animateWind_fields
        animate_without_weather_aux)+

lemma animateClouds_heap:
  "clouds s \<noteq> Some r \<Longrightarrow> heap (animateClouds delta w s) r = heap s r"
  by (auto simp: animateClouds_def Let_def split: option.split obj.split)

lemma animateRain_heap:
  "rainParticles s \<noteq> Some r \<Longrightarrow> heap (animateRain delta s) r = heap s r"
  by (auto simp: animateRain_def Let_def split: option.split obj.split prod.split)

lemma animateWind_heap:
  "windLines s \<noteq> Some r \<Longrightarrow> heap (animateWind delta w s) r = heap s r"
  by (auto simp: animateWind_def Let_def split: option.split obj.split prod.split)

lemma animate_heap:
  assumes "clouds s \<noteq> Some r" "rainParticles s \<noteq> Some r" "windLines s \<noteq> Some r"
  shows "heap (animate delta s) r = heap s r"
proof (cases "weatherState s")
  case None
  then show ?thesis by (simp add: animate_without_weather_aux)
next
  case (Some w)
  then show ?thesis
    using assms
    by (simp add: animate_Some animateClouds_fields animateRain_fields animateClouds_heap
        animateRain_heap animateWind_heap)
qed

lemma dispose_fields:
  "scene_children (dispose s)
     = rm (windIndicator s) (rm (windLines s) (rm (rainParticles s) (rm (clouds s) (scene_children s))))"
  "heap (dispose s) = heap s"
  "next_ref (dispose s) = next_ref s"
  "clouds (dispose s) = clouds s"
  "rainParticles (dispose s) = rainParticles s"
  "windLines (dispose s) = windLines s"
  "windIndicator (dispose s) = windIndicator s"
  "windArrow (dispose s) = windArrow s"
  "weatherState (dispose s) = weatherState s"
  "fog (dispose s) = fog s"
  "scene_fog (dispose s) = (if fog s \<noteq> None then None else scene_fog s)"
  by (auto simp: dispose_def scene_remove_def Let_def split: option.split)

lemma filter_rm: "filter P (rm h xs) = rm h (filter P xs)"
  by (cases h) (simp_all add: filter_remove1)

lemma dispose_instances:
  assumes inv: "engine_inv s" and K: "K \<noteq> KFog"
  shows "instances K (dispose s) = []"
proof -
  have "instances K (dispose s)
      = rm (windIndicator s) (rm (windLines s) (rm (rainParticles s) (rm (clouds s) (instances K s))))"
    by (simp add: instances_def refs_where_def dispose_fields filter_rm)
  also have "instances K s = handle_list (handle K s)"
    using inv K by (rule inv_handle)
  finally show ?thesis
    using K
    by (cases K; cases "clouds s"; cases "rainParticles s"; cases "windLines s";
        cases "windIndicator s") simp_all
qed

lemma set_rm: "set (rm h xs) \<subseteq> set xs"
  by (cases h) (simp_all add: set_remove1_subset)

lemma dispose_detached:
  assumes inv: "engine_inv s" and K: "K \<noteq> KFog" and h: "handle K s = Some r"
  shows "r \<notin> set (scene_children (dispose s))"
proof
  assume r: "r \<in> set (scene_children (dispose s))"
  have "instances K s = [r]"
    using inv_handle[OF inv K] h by simp
  then have "obj_kind (heap s r) = Some K"
    using instances_mem[of r K s] by simp
  with r have "r \<in> set (instances K (dispose s))"
    by (simp add: instances_mem dispose_fields)
  then show False
    using dispose_instances[OF inv K] by simp
qed

lemmas engine_eval = updateWeather_def updateEffects_def WeatherEffects_new_def scene0_def
    updateFog_def updateLighting_def updateClouds_def updateRain_def updateWind_def
    updateIndicator_def rain_like_def cloud_like_def toLowerCase_def cloudCountOf_def alloc_def
    scene_add_def scene_remove_def createWindDirectionIndicator_def updateWindDirection_def
    Let_def cloudLoop.simps

lemma breeze_clouds:
  "clouds engine_breeze = Some 3" "weatherState engine_breeze = Some w_breeze"
  "\<exists>cs. heap engine_breeze 3 = Some (CloudGroup 0 cs)"
  "rainParticles engine_breeze = None" "windLines engine_breeze = None"
  by (simp_all add: engine_breeze_def w_breeze_def engine_eval)

text \<open>
  Claim C9, as the specification states it, fails: after \<open>dispose\<close> the per-frame step is
  not a no-op; it still moves the detached cloud group.
\<close>

theorem animate_after_dispose_mutates:
  "animate 1 (dispose engine_breeze) \<noteq> dispose engine_breeze"
proof -
  obtain cs where cs: "heap engine_breeze 3 = Some (CloudGroup 0 cs)"
    using breeze_clouds(3) by blast
  have "heap (animateClouds 1 w_breeze (dispose engine_breeze)) 3 = Some (CloudGroup (1 / 10) cs)"
    by (simp add: animateClouds_def dispose_fields breeze_clouds cs w_breeze_def Let_def)
  moreover have "rainParticles (animateClouds 1 w_breeze (dispose engine_breeze)) \<noteq> Some 3"
    "windLines (animateRain 1 (animateClouds 1 w_breeze (dispose engine_breeze))) \<noteq> Some 3"
    by (simp_all add: animateClouds_fields animateRain_fields dispose_fields breeze_clouds)
  ultimately have "heap (animate 1 (dispose engine_breeze)) 3 = Some (CloudGroup (1 / 10) cs)"
    by (simp add: animate_Some dispose_fields breeze_clouds animateRain_heap animateWind_heap)
  moreover have "heap (dispose engine_breeze) 3 = Some (CloudGroup 0 cs)"
    by (simp add: dispose_fields cs)
  ultimately show ?thesis
    by auto
qed

text \<open>
  Claim C9, amended.  The teardown of the component detaches the resize listener and
  disposes the meshes the traversal of the scene visits; it removes the canvas and disposes
  the renderer only when the mount element is still there, and leaves them as they are
  otherwise.  It does not cancel the animation callback: a pending frame stays pending,
  still runs, renders and requests another.  \<open>dispose\<close> clears the scene fog when the
  engine has made one, as it has after any \<open>updateWeather\<close> call, and leaves it otherwise;
  in an engine whose handles agree with the scene it detaches every effect instance.  A
  later \<open>animate\<close> allocates nothing and changes neither the children of the scene, nor
  its fog, nor, in such an engine, any object still in the scene.
\<close>

theorem teardown_behaviour:
  "resizeListener (cleanup m n l) = False
   \<and> meshesDisposed (cleanup m n l) = n
   \<and> rendererDisposed (cleanup m n l) = (m \<or> rendererDisposed l)
   \<and> canvasMounted (cleanup m n l) = (canvasMounted l \<and> \<not> m)
   \<and> framePending (cleanup m n l) = framePending l
   \<and> framesRendered (cleanup m n l) = framesRendered l
   \<and> (framePending l \<longrightarrow>
        framePending (frame (cleanup m n l))
        \<and> framesRendered (frame (cleanup m n l)) = Suc (framesRendered l)
        \<and> rendererDisposed (frame (cleanup m n l)) = (m \<or> rendererDisposed l))
   \<and> scene_fog (dispose s) = (if fog s = None then scene_fog s else None)
   \<and> scene_fog (dispose (final (updateWeather w s))) = None
   \<and> scene_children (animate delta (dispose s)) = scene_children (dispose s)
   \<and> scene_fog (animate delta (dispose s)) = scene_fog (dispose s)
   \<and> next_ref (animate delta (dispose s)) = next_ref (dispose s)
   \<and> (engine_inv s \<longrightarrow>
        (\<forall>K. K \<noteq> KFog \<longrightarrow>
              instances K (dispose s) = [] \<and> instances K (animate delta (dispose s)) = [])
        \<and> (\<forall>r\<in>set (scene_children (dispose s)).
              heap (animate delta (dispose s)) r = heap (dispose s) r))"
proof -
  have life: "resizeListener (cleanup m n l) = False"
    "meshesDisposed (cleanup m n l) = n"
    "rendererDisposed (cleanup m n l) = (m \<or> rendererDisposed l)"
    "canvasMounted (cleanup m n l) = (canvasMounted l \<and> \<not> m)"
    "framePending (cleanup m n l) = framePending l"
    "framesRendered (cleanup m n l) = framesRendered l"
    "framePending l \<longrightarrow> framePending (frame (cleanup m n l))
        \<and> framesRendered (frame (cleanup m n l)) = Suc (framesRendered l)
        \<and> rendererDisposed (frame (cleanup m n l)) = (m \<or> rendererDisposed l)"
    by (auto simp: cleanup_def cleanupScene_def frame_def field_animate_def)
  have fogs: "scene_fog (dispose s) = (if fog s = None then scene_fog s else None)"
    "scene_fog (dispose (final (updateWeather w s))) = None"
    using updateWeather_fog[of w s] by (simp_all add: dispose_fields)
  have keep: "heap (animate delta (dispose s)) r = heap (dispose s) r"
    if inv: "engine_inv s" and r: "r \<in> set (scene_children (dispose s))" for r
  proof -
    have "clouds s \<noteq> Some r"
      using dispose_detached[OF inv, of KClouds r] r by auto
    moreover have "rainParticles s \<noteq> Some r"
      using dispose_detached[OF inv, of KRain r] r by auto
    moreover have "windLines s \<noteq> Some r"
      using dispose_detached[OF inv, of KWind r] r by auto
    ultimately show ?thesis
      by (simp add: animate_heap dispose_fields)
  qed
  have inst: "instances K (dispose s) = [] \<and> instances K (animate delta (dispose s)) = []"
    if inv: "engine_inv s" and K: "K \<noteq> KFog" for K
  proof -
    have "instances K (animate delta (dispose s))
        = filter (\<lambda>r. obj_kind (heap (animate delta (dispose s)) r) = Some K)
            (scene_children (dispose s))"
      by (simp add: instances_def refs_where_def animate_fields)
    also have "\<dots> = filter (\<lambda>r. obj_kind (heap (dispose s) r) = Some K) (scene_children (dispose s))"
      using keep[OF inv] by (intro filter_cong) simp_all
    also have "\<dots> = instances K (dispose s)"
      by (simp add: instances_def refs_where_def)
    finally show ?thesis
      using dispose_instances[OF inv K] by simp
  qed
  have eng: "engine_inv s \<longrightarrow>
        (\<forall>K. K \<noteq> KFog \<longrightarrow>
              instances K (dispose s) = [] \<and> instances K (animate delta (dispose s)) = [])
        \<and> (\<forall>r\<in>set (scene_children (dispose s)).
              heap (animate delta (dispose s)) r = heap (dispose s) r)"
    using keep inst by blast
  show ?thesis
    using life fogs eng by (simp only: animate_fields simp_thms)
qed

theorem teardown_behaviour_witness:
  "framePending (field_animate mounted)
   \<and> rendererDisposed (cleanup True 5 (field_animate mounted))
   \<and> \<not> canvasMounted (cleanup True 5 (field_animate mounted))
   \<and> meshesDisposed (cleanup True 5 (field_animate mounted)) = 5
   \<and> framePending (frame (cleanup True 5 (field_animate mounted)))
   \<and> framesRendered (frame (cleanup True 5 (field_animate mounted))) = 2
   \<and> engine_inv engine_breeze
   \<and> instances KClouds engine_breeze = [3]
   \<and> instances KClouds (animate 1 (dispose engine_breeze)) = []
   \<and> scene_fog engine_breeze \<noteq> None
   \<and> scene_fog (dispose engine_breeze) = None"
proof -
  have p: "framePending (field_animate mounted)" "framesRendered (field_animate mounted) = 1"
    by (simp_all add: field_animate_def mounted_def)
  have i0: "engine_inv (WeatherEffects_new scene0)"
    using scene0_fresh by (rule new_inv)
  have i: "engine_inv engine_breeze"
    unfolding engine_breeze_def using i0 by (rule updateWeather_inv)
  have c: "instances KClouds engine_breeze = [3]"
    using inv_handle[OF i, of KClouds] by (simp add: breeze_clouds)
  have f: "scene_fog engine_breeze \<noteq> None"
    by (simp add: engine_breeze_def updateWeather_fields)
  have d: "dispose (final (updateWeather w_breeze (WeatherEffects_new scene0))) = dispose engine_breeze"
    by (simp add: engine_breeze_def)
  show ?thesis
    using teardown_behaviour [of True 5 "field_animate mounted" engine_breeze w_breeze 1]
      teardown_behaviour [of True 5 "field_animate mounted" "WeatherEffects_new scene0" w_breeze 1]
      p i c f
    unfolding d by simp
qed

text \<open>
  Claim C8, as the specification states it, fails: the second application of the same state
  builds a new cloud group from new random draws, so the rendered objects differ.
\<close>

theorem second_application_rebuilds_clouds:
  "scene_objects (final (updateWeather w_clear (final (updateWeather w_clear (WeatherEffects_new scene0)))))
     \<noteq> scene_objects (final (updateWeather w_clear (WeatherEffects_new scene0)))"
  by (simp add: scene_objects_def w_clear_def engine_eval makeCloud_def rnd0_def)

lemma replace_refs_where:
  assumes fresh: "\<forall>r\<in>set (scene_children s). r < next_ref s"
    and ch: "scene_children s' =
               (case new of None \<Rightarrow> rm h (scene_children s)
                | Some ob \<Rightarrow> remove1 (next_ref s) (rm h (scene_children s)) @ [next_ref s])"
    and hp: "\<forall>r<next_ref s. heap s' r = heap s r"
  shows "refs_where P s' =
           rm h (refs_where P s)
           @ (if new \<noteq> None \<and> P (heap s' (next_ref s)) then [next_ref s] else [])"
proof -
  have nin: "next_ref s \<notin> set (rm h (scene_children s))"
    using fresh set_rm[of h "scene_children s"] by auto
  have same: "filter (\<lambda>r. P (heap s' r)) (rm h (scene_children s))
            = filter (\<lambda>r. P (heap s r)) (rm h (scene_children s))"
    using fresh set_rm[of h "scene_children s"] hp by (intro filter_cong) auto
  show ?thesis
  proof (cases new)
    case None
    with ch same show ?thesis
      by (simp add: refs_where_def filter_rm)
  next
    case (Some ob)
    have "scene_children s' = rm h (scene_children s) @ [next_ref s]"
      using ch Some nin by (simp add: remove1_idem)
    then show ?thesis
      using same Some by (simp add: refs_where_def filter_rm)
  qed
qed

lemma lights_frame:
  assumes "refs_where isLight s' = refs_where isLight s"
    and "\<forall>r\<in>set (refs_where isLight s). heap s' r = heap s r"
  shows "lights s' = lights s"
  using assms by (simp add: lights_def cong: map_cong)

lemma replace_lights:
  assumes inv: "engine_inv s" and K0: "K0 \<noteq> KFog"
    and ch: "scene_children s' =
               (case new of None \<Rightarrow> rm (handle K0 s) (scene_children s)
                | Some ob \<Rightarrow> remove1 (next_ref s) (rm (handle K0 s) (scene_children s)) @ [next_ref s])"
    and hp: "heap s' = (case new of None \<Rightarrow> heap s | Some ob \<Rightarrow> (heap s)(next_ref s \<mapsto> ob))"
    and kd: "\<forall>ob. new = Some ob \<longrightarrow> obj_kind (Some ob) = Some K0"
  shows "lights s' = lights s"
proof (rule lights_frame)
  note fresh = inv_fresh[OF inv]
  have keep: "\<forall>r<next_ref s. heap s' r = heap s r"
    using hp by (cases new) simp_all
  have "rm (handle K0 s) (refs_where isLight s) = refs_where isLight s"
  proof (cases "handle K0 s")
    case None
    then show ?thesis by simp
  next
    case (Some c)
    then have "c \<in> set (instances K0 s)"
      using inv_handle[OF inv K0] by simp
    then have "\<not> isLight (heap s c)"
      by (simp add: instances_mem kind_not_light)
    then show ?thesis
      using Some by (simp add: refs_where_def remove1_idem)
  qed
  moreover have "\<not> (new \<noteq> None \<and> isLight (heap s' (next_ref s)))"
    using hp kd by (cases new) (auto dest: kind_not_light)
  ultimately show "refs_where isLight s' = refs_where isLight s"
    using replace_refs_where[OF fresh ch keep, of isLight] by simp
  show "\<forall>r\<in>set (refs_where isLight s). heap s' r = heap s r"
    using keep fresh by (auto simp: refs_where_def)
qed

lemma updateClouds_lights: "engine_inv s \<Longrightarrow> lights (updateClouds w s) = lights s"
  by (rule replace_lights[where ?K0.0 = KClouds and new = "Some (new_clouds w s)"])
     (simp_all add: updateClouds_shape new_clouds_def)

lemma updateRain_lights: "engine_inv s \<Longrightarrow> lights (final (updateRain w s)) = lights s"
  using new_rain_count[of w s]
  by (intro replace_lights[where ?K0.0 = KRain and new = "new_rain w s"])
     (simp_all add: updateRain_shape cong: option.case_cong)

lemma updateWind_lights: "engine_inv s \<Longrightarrow> lights (updateWind w s) = lights s"
  using new_wind_count[of w s]
  by (intro replace_lights[where ?K0.0 = KWind and new = "new_wind w s"])
     (simp_all add: updateWind_shape cong: option.case_cong)

lemma updateIndicator_lights:
  assumes inv: "engine_inv s"
  shows "lights (updateIndicator w s) = lights s"
proof -
  let ?s' = "updateIndicator w s"
  note fresh = inv_fresh[OF inv]
  consider (create) "0 < windSpeed w" "windIndicator s = None"
    | (update) g where "0 < windSpeed w" "windIndicator s = Some g"
    | (remove) "\<not> 0 < windSpeed w"
    by (cases "windIndicator s") auto
  then show ?thesis
  proof cases
    case create
    note sh = updateIndicator_create[OF create]
    have keep: "\<forall>r<next_ref s. heap ?s' r = heap s r"
      by (simp add: sh)
    have "refs_where isLight ?s' = rm None (refs_where isLight s)
           @ (if Some (IndicatorGroup (Suc (next_ref s))) \<noteq> None
                 \<and> isLight (heap ?s' (next_ref s)) then [next_ref s] else [])"
      by (rule replace_refs_where[OF fresh _ keep]) (simp add: sh)
    then have "refs_where isLight ?s' = refs_where isLight s"
      by (simp add: sh)
    moreover have "\<forall>r\<in>set (refs_where isLight s). heap ?s' r = heap s r"
      using keep fresh by (auto simp: refs_where_def)
    ultimately show ?thesis by (rule lights_frame)
  next
    case update
    from inv update(2) obtain a where a: "windArrow s = Some a" "a < next_ref s"
        "heap s g = Some (IndicatorGroup a)" "isArrow (heap s a)" "g < next_ref s"
        "g \<in> set (scene_children s)"
      by (rule inv_arrow)
    note sh = updateIndicator_update[OF update a(1) a(4)]
    have nl: "\<not> isLight (heap s a)" using a(4) by (rule arrow_not_light)
    have "isLight (heap ?s' r) = isLight (heap s r)" for r
      using nl by (simp add: sh new_arrow_def)
    then have "refs_where isLight ?s' = refs_where isLight s"
      by (simp add: refs_where_def sh(1))
    moreover have "\<forall>r\<in>set (refs_where isLight s). heap ?s' r = heap s r"
      using nl by (auto simp: refs_where_def sh(2))
    ultimately show ?thesis by (rule lights_frame)
  next
    case remove
    note sh = updateIndicator_remove[OF remove]
    show ?thesis
      by (rule replace_lights[OF inv, where ?K0.0 = KIndicator and new = None])
         (simp_all add: sh)
  qed
qed

lemma find_map_option: "find P (map f xs) = map_option f (find (\<lambda>x. P (f x)) xs)"
  by (induction xs) simp_all

lemma find_filter_imp: "(\<And>x. P x \<Longrightarrow> Q x) \<Longrightarrow> find P (filter Q xs) = find P xs"
  by (induction xs) auto

lemma ambient_light: "isAmbientLight ob \<Longrightarrow> isLight ob"
  by (cases ob rule: isAmbientLight.cases) simp_all

lemma sun_light: "isSunLight ob \<Longrightarrow> isLight ob"
  by (cases ob rule: isSunLight.cases) simp_all

lemma relit_preserves:
  "isLight (relit w a d r ob) = isLight ob"
  "isAmbientLight (relit w a d r ob) = isAmbientLight ob"
  "isSunLight (relit w a d r ob) = isSunLight ob"
  by (cases ob rule: isLight.cases; simp add: relit_def Let_def)+

lemma relit_idem: "relit w a d r (relit w a d r ob) = relit w a d r ob"
  by (cases ob rule: isLight.cases; simp add: relit_def Let_def)

lemma updateLighting_relit:
  "heap (updateLighting w s) =
     (case find (\<lambda>r. isAmbientLight (heap s r)) (scene_children s) of
        None \<Rightarrow> heap s
      | Some a \<Rightarrow>
          (case find (\<lambda>r. isSunLight (heap s r)) (scene_children s) of
             None \<Rightarrow> heap s
           | Some d \<Rightarrow> (\<lambda>r. relit w a d r (heap s r))))"
  by (auto simp: updateLighting_def relit_def Let_def fun_eq_iff split: option.split)

lemma find_lights:
  "find (\<lambda>p. isAmbientLight (snd p)) (lights s)
     = map_option (\<lambda>r. (r, heap s r)) (find (\<lambda>r. isAmbientLight (heap s r)) (scene_children s))"
  "find (\<lambda>p. isSunLight (snd p)) (lights s)
     = map_option (\<lambda>r. (r, heap s r)) (find (\<lambda>r. isSunLight (heap s r)) (scene_children s))"
  by (simp_all add: lights_def refs_where_def find_map_option find_filter_imp ambient_light
      sun_light)

lemma same_scene_lights:
  "heap s' = heap s \<Longrightarrow> scene_children s' = scene_children s \<Longrightarrow> lights s' = lights s"
  by (simp add: lights_def refs_where_def)

lemma updateLighting_lights: "lights (updateLighting w s) = relight w (lights s)"
proof (cases "find (\<lambda>r. isAmbientLight (heap s r)) (scene_children s)")
  case None
  have fl: "find (\<lambda>p. isAmbientLight (snd p)) (lights s) = None"
    using None by (simp add: find_lights)
  have "lights (updateLighting w s) = lights s"
    by (rule same_scene_lights) (simp_all add: updateLighting_relit None updateLighting_fields)
  then show ?thesis
    by (simp add: relight_def fl)
next
  case a: (Some a)
  have fa: "find (\<lambda>p. isAmbientLight (snd p)) (lights s) = Some (a, heap s a)"
    using a by (simp add: find_lights)
  show ?thesis
  proof (cases "find (\<lambda>r. isSunLight (heap s r)) (scene_children s)")
    case None
    have fl: "find (\<lambda>p. isSunLight (snd p)) (lights s) = None"
      using None by (simp add: find_lights)
    have "lights (updateLighting w s) = lights s"
      by (rule same_scene_lights) (simp_all add: updateLighting_relit a None updateLighting_fields)
    then show ?thesis
      by (simp add: relight_def fa fl)
  next
    case d: (Some d)
    have fd: "find (\<lambda>p. isSunLight (snd p)) (lights s) = Some (d, heap s d)"
      using d by (simp add: find_lights)
    have h: "heap (updateLighting w s) = (\<lambda>r. relit w a d r (heap s r))"
      using a d by (simp add: updateLighting_relit)
    have "lights (updateLighting w s)
        = map (\<lambda>r. (r, relit w a d r (heap s r))) (refs_where isLight s)"
      by (simp add: lights_def refs_where_def h updateLighting_fields relit_preserves)
    also have "\<dots> = map (\<lambda>p. (fst p, relit w a d (fst p) (snd p))) (lights s)"
      by (simp add: lights_def comp_def)
    finally show ?thesis
      by (simp add: relight_def fa fd)
  qed
qed

lemma relight_idem: "relight w (relight w L) = relight w L"
proof (cases "find (\<lambda>p. isAmbientLight (snd p)) L")
  case None
  then show ?thesis by (simp add: relight_def)
next
  case a: (Some pa)
  show ?thesis
  proof (cases "find (\<lambda>p. isSunLight (snd p)) L")
    case None
    then show ?thesis using a by (simp add: relight_def)
  next
    case d: (Some pd)
    let ?g = "\<lambda>p. (fst p, relit w (fst pa) (fst pd) (fst p) (snd p))"
    have r: "relight w L = map ?g L"
      using a d by (simp add: relight_def)
    have fa: "find (\<lambda>p. isAmbientLight (snd p)) (map ?g L) = Some (?g pa)"
      using a by (simp add: find_map_option relit_preserves)
    have fd: "find (\<lambda>p. isSunLight (snd p)) (map ?g L) = Some (?g pd)"
      using d by (simp add: find_map_option relit_preserves)
    show ?thesis
      unfolding r by (simp add: relight_def fa fd relit_idem)
  qed
qed

lemma updateWeather_lights:
  assumes inv: "engine_inv s"
  shows "lights (final (updateWeather w s)) = relight w (lights s)"
proof -
  let ?s1 = "updateFog w (s\<lparr>weatherState := Some w\<rparr>)"
  let ?s2 = "before_rain w s"
  let ?s3 = "final (updateRain w ?s2)"
  let ?s4 = "updateWind w ?s3"
  have i1: "engine_inv ?s1" using inv by (simp add: updateFog_inv weatherState_inv)
  have i1': "engine_inv (updateLighting w ?s1)" using i1 by (rule updateLighting_inv)
  have i2: "engine_inv ?s2" using inv by (rule before_rain_inv)
  have i3: "engine_inv ?s3" using i2 by (rule updateRain_inv)
  have i4: "engine_inv ?s4" using i3 by (rule updateWind_inv)
  have l1: "lights ?s1 = lights s"
    by (rule same_scene_lights) (simp_all add: updateFog_def Let_def)
  have l2: "lights ?s2 = relight w (lights s)"
    unfolding before_rain_def
    by (simp only: updateClouds_lights[OF i1'] updateLighting_lights l1)
  have l3: "lights ?s3 = relight w (lights s)"
    by (simp only: updateRain_lights[OF i2] l2)
  have l5: "lights (updateIndicator w ?s4) = relight w (lights s)"
    by (simp only: updateIndicator_lights[OF i4] updateWind_lights[OF i3] l3)
  show ?thesis
    unfolding final_updateWeather using l3 l5 by simp
qed

lemma updateWeather_counts_throw:
  assumes inv: "engine_inv s" and thr: "rain_throws w s"
  shows "cloud_counts (final (updateWeather w s)) = [nat \<lceil>cloudCountOf w\<rceil>]"
    "particle_counts (final (updateWeather w s)) = []"
    "streak_counts (final (updateWeather w s)) = streak_counts s"
    "arrow_poses (final (updateWeather w s)) = arrow_poses s"
proof -
  let ?s2 = "before_rain w s"
  have fin: "final (updateWeather w s) = final (updateRain w ?s2)"
    using thr by (simp add: final_updateWeather)
  have i2: "engine_inv ?s2" using inv by (rule before_rain_inv)
  note c2 = before_rain_counts[OF inv, of w]
  note c3 = updateRain_counts[OF i2, of w]
  show "cloud_counts (final (updateWeather w s)) = [nat \<lceil>cloudCountOf w\<rceil>]"
    by (simp only: fin c3 c2)
  show "particle_counts (final (updateWeather w s)) = []"
    using thr by (simp add: fin c3 rain_throws_before_rain)
  show "streak_counts (final (updateWeather w s)) = streak_counts s"
    by (simp only: fin c3 c2)
  show "arrow_poses (final (updateWeather w s)) = arrow_poses s"
    by (simp only: fin c3 c2)
qed

lemma live_count_lengths:
  "live_count KClouds s = length (cloud_counts s)"
  "live_count KRain s = length (particle_counts s)"
  "live_count KWind s = length (streak_counts s)"
  "live_count KIndicator s = length (arrow_poses s)"
  "live_count KFog s = (case scene_fog s of None \<Rightarrow> 0 | Some f \<Rightarrow> 1)"
  by (simp_all add: live_count_def cloud_counts_def particle_counts_def streak_counts_def
      arrow_poses_def)

text \<open>
  Claim C8, amended.  In any state the engine can reach, applying a weather state a second
  time leaves the same fog, the same lights with the same settings, the same number of clouds,
  rain particles and wind streaks, the same wind-arrow pose and the same number of live
  instances of every kind, at most one each, as applying it once.  (The positions and sizes
  of the clouds, particles and streaks are drawn again.)
\<close>

theorem reapplying_same_state:
  assumes "fresh_scene sc"
    and "s1 = final (updateWeather w (updates ws (WeatherEffects_new sc)))"
    and "s2 = final (updateWeather w s1)"
  shows "scene_fog s2 = scene_fog s1
       \<and> lights s2 = lights s1
       \<and> cloud_counts s2 = cloud_counts s1
       \<and> particle_counts s2 = particle_counts s1
       \<and> streak_counts s2 = streak_counts s1
       \<and> arrow_poses s2 = arrow_poses s1
       \<and> (\<forall>K. live_count K s2 = live_count K s1 \<and> live_count K s2 \<le> 1)"
proof -
  let ?s = "updates ws (WeatherEffects_new sc)"
  have inv: "engine_inv ?s" using assms(1) by (rule reachable_inv)
  have inv1: "engine_inv s1" unfolding assms(2) using inv by (rule updateWeather_inv)
  have inv2: "engine_inv s2" unfolding assms(3) using inv1 by (rule updateWeather_inv)
  have fog: "scene_fog s2 = scene_fog s1"
    unfolding assms(2,3) by (simp only: updateWeather_fields)
  have li: "lights s2 = lights s1"
    unfolding assms(3) updateWeather_lights[OF inv1]
    unfolding assms(2) updateWeather_lights[OF inv]
    by (rule relight_idem)
  have counts: "cloud_counts s2 = cloud_counts s1 \<and> particle_counts s2 = particle_counts s1
      \<and> streak_counts s2 = streak_counts s1 \<and> arrow_poses s2 = arrow_poses s1"
  proof (cases "rain_throws w ?s")
    case True
    then have again: "rain_throws w s1"
      unfolding assms(2) by (simp add: rain_throws_again)
    show ?thesis
      unfolding assms(3) updateWeather_counts_throw[OF inv1 again]
      unfolding assms(2) updateWeather_counts_throw[OF inv True]
      by simp
  next
    case False
    then have again: "\<not> rain_throws w s1"
      unfolding assms(2) by (simp add: rain_throws_again)
    show ?thesis
      unfolding assms(3) updateWeather_counts(1-4)[OF inv1 again]
      unfolding assms(2) updateWeather_counts(1-4)[OF inv False]
      by simp
  qed
  have live: "live_count K s2 = live_count K s1" for K
    using counts fog by (cases K) (simp_all add: live_count_lengths)
  show ?thesis
    using fog li counts live inv_live_count[OF inv2] by blast
qed

theorem reapplying_same_state_witness:
  "fresh_scene scene0
   \<and> lights (final (updateWeather w_clear (final (updateWeather w_clear (WeatherEffects_new scene0)))))
       = lights (final (updateWeather w_clear (WeatherEffects_new scene0)))
   \<and> cloud_counts (final (updateWeather w_clear (final (updateWeather w_clear (WeatherEffects_new scene0)))))
       = cloud_counts (final (updateWeather w_clear (WeatherEffects_new scene0)))
   \<and> live_count KClouds (final (updateWeather w_clear (final (updateWeather w_clear (WeatherEffects_new scene0))))) \<le> 1"
proof -
  have f: "fresh_scene scene0"
    by (simp add: fresh_scene_def scene0_def)
  have u: "updates [] (WeatherEffects_new scene0) = WeatherEffects_new scene0"
    by simp
  show ?thesis
    using reapplying_same_state [OF f refl refl, of w_clear "[]"] f unfolding u by blast
qed

end
